theory Spec2Isabelle
  imports Complex_Main
begin

section \<open>Numbers and vectors\<close>

text \<open>
  The program computes on JavaScript numbers. The model reads them as real numbers, so
  every statement below is about the exact arithmetic the code describes; rounding, NaN
  and infinities are outside the model. The bounds on the turn rate and on the offset
  (claims C1 and C5) are stated with a tolerance, because the doubles of the program
  meet the exact bounds only up to rounding. The vector class and the curve classes
  come from the three.js library: the vector operations used by the program are written
  out below after the library, the arclength and the interior evaluation of a curve are
  taken as parameters (record \<open>three\<close>).
\<close>

datatype vec3 = Vec3 (vx: real) (vy: real) (vz: real)

definition vadd :: "vec3 \<Rightarrow> vec3 \<Rightarrow> vec3" where
  "vadd a b = Vec3 (vx a + vx b) (vy a + vy b) (vz a + vz b)"

definition vsub :: "vec3 \<Rightarrow> vec3 \<Rightarrow> vec3" where
  "vsub a b = Vec3 (vx a - vx b) (vy a - vy b) (vz a - vz b)"

definition multiplyScalar :: "vec3 \<Rightarrow> real \<Rightarrow> vec3" where
  "multiplyScalar a s = Vec3 (vx a * s) (vy a * s) (vz a * s)"

definition addScaledVector :: "vec3 \<Rightarrow> vec3 \<Rightarrow> real \<Rightarrow> vec3" where
  "addScaledVector a b s = Vec3 (vx a + vx b * s) (vy a + vy b * s) (vz a + vz b * s)"

definition dot :: "vec3 \<Rightarrow> vec3 \<Rightarrow> real" where
  "dot a b = vx a * vx b + vy a * vy b + vz a * vz b"

definition crossVectors :: "vec3 \<Rightarrow> vec3 \<Rightarrow> vec3" where
  "crossVectors a b =
     Vec3 (vy a * vz b - vz a * vy b) (vz a * vx b - vx a * vz b) (vx a * vy b - vy a * vx b)"

definition lengthSq :: "vec3 \<Rightarrow> real" where
  "lengthSq a = vx a * vx a + vy a * vy a + vz a * vz a"

definition vlength :: "vec3 \<Rightarrow> real" where
  "vlength a = sqrt (lengthSq a)"

text \<open>\<open>normalize\<close> divides by \<open>length() || 1\<close>: the zero vector stays the zero vector.\<close>

definition normalizeV :: "vec3 \<Rightarrow> vec3" where
  "normalizeV a = (let l = vlength a in multiplyScalar a (1 / (if l = 0 then 1 else l)))"

definition clamp :: "real \<Rightarrow> real \<Rightarrow> real \<Rightarrow> real" where
  "clamp v lo hi = max lo (min hi v)"

definition angleTo :: "vec3 \<Rightarrow> vec3 \<Rightarrow> real" where
  "angleTo a b =
     (let denominator = sqrt (lengthSq a * lengthSq b)
      in if denominator = 0 then pi / 2
         else arccos (clamp (dot a b / denominator) (- 1) 1))"

text \<open>
  \<open>applyAxisAngle\<close> builds the quaternion \<open>(axis * sin (angle / 2), cos (angle / 2))\<close> and
  applies it: \<open>t = 2 * cross (q.xyz, v)\<close>, result \<open>v + q.w * t + cross (q.xyz, t)\<close>.
\<close>

definition applyQuaternion :: "vec3 \<Rightarrow> vec3 \<Rightarrow> real \<Rightarrow> vec3" where
  "applyQuaternion v q qw =
     (let tx = 2 * (vy q * vz v - vz q * vy v);
          ty = 2 * (vz q * vx v - vx q * vz v);
          tz = 2 * (vx q * vy v - vy q * vx v)
      in Vec3 (vx v + qw * tx + vy q * tz - vz q * ty)
              (vy v + qw * ty + vz q * tx - vx q * tz)
              (vz v + qw * tz + vx q * ty - vy q * tx))"

definition applyAxisAngle :: "vec3 \<Rightarrow> vec3 \<Rightarrow> real \<Rightarrow> vec3" where
  "applyAxisAngle v axis angle =
     (let halfAngle = angle / 2; s = sin halfAngle
      in applyQuaternion v (multiplyScalar axis s) (cos halfAngle))"

definition lerp :: "vec3 \<Rightarrow> vec3 \<Rightarrow> real \<Rightarrow> vec3" where
  "lerp a b alpha =
     Vec3 (vx a + (vx b - vx a) * alpha) (vy a + (vy b - vy a) * alpha)
          (vz a + (vz b - vz a) * alpha)"

section \<open>Curve segments and the library's curve evaluation\<close>

record curve =
  v0 :: vec3
  v1 :: vec3
  v2 :: vec3
  v3 :: vec3

text \<open>
  What the program asks of three.js about a segment or about the whole path:
  \<open>Curve.getLength\<close>, \<open>Curve.getTangentAt\<close>, \<open>CurvePath.getPointAt\<close> and
  \<open>CurvePath.getTangentAt\<close> (the last two read the current segment list).
\<close>

record three =
  curveGetLength :: "curve \<Rightarrow> real"
  curveGetTangentAt :: "curve \<Rightarrow> real \<Rightarrow> vec3"
  pathGetPointAt :: "curve list \<Rightarrow> real \<Rightarrow> vec3"
  pathGetTangentAt :: "curve list \<Rightarrow> real \<Rightarrow> vec3"

definition getAnalyticalTangent :: "three \<Rightarrow> curve \<Rightarrow> real \<Rightarrow> vec3" where
  "getAnalyticalTangent lib c t =
     (if t = 0 then normalizeV (vsub (v1 c) (v0 c))
      else if t = 1 then normalizeV (vsub (v3 c) (v2 c))
      else normalizeV (curveGetTangentAt lib c t))"

section \<open>The steering generator\<close>

definition wanderForce ::
  "vec3 \<Rightarrow> (real \<Rightarrow> real \<Rightarrow> real) \<Rightarrow> real \<Rightarrow> real \<Rightarrow> real \<Rightarrow> vec3" where
  "wanderForce currentDir noise2D nTime wStrength tStrength =
     (let wanderNoise = noise2D nTime 0;
          wanderAngle = wanderNoise * wStrength;
          up = Vec3 0 1 0;
          result1 = applyAxisAngle currentDir up wanderAngle;
          tiltNoise = noise2D nTime 100;
          tiltAngle = tiltNoise * tStrength;
          side = crossVectors up result1;
          result2 =
            (if lengthSq side > 0.01 then applyAxisAngle result1 (normalizeV side) tiltAngle
             else result1)
      in normalizeV result2)"

definition limitTurnRate :: "vec3 \<Rightarrow> vec3 \<Rightarrow> real \<Rightarrow> vec3" where
  "limitTurnRate current desired maxRate =
     (let angle = angleTo current desired
      in if angle \<le> maxRate then desired
         else if angle < 0.001 then current
         else
           let axis0 = crossVectors current desired;
               axis =
                 (if lengthSq axis0 < 0.0001
                  then
                    let a = (if \<bar>vy current\<bar> > 0.9 then Vec3 1 0 0 else Vec3 0 1 0)
                    in normalizeV (crossVectors current a)
                  else normalizeV axis0)
           in applyAxisAngle current axis maxRate)"

text \<open>
  The options after \<open>createCurveGenerator\<close> has filled in its defaults, and the state the
  closure \<open>nextCurve\<close> keeps between calls.
\<close>

record SegmentLength =
  minLength :: real
  maxLength :: real

record CurveGeneratorOptions =
  segmentLength :: SegmentLength
  maxTurnRate :: real
  orbitRadius :: real
  orbitWeight :: real
  wanderWeight :: real
  wanderStrength :: real
  tiltStrength :: real
  coilAmplitude :: real
  coilFrequency :: real


record Heading =
  lastPoint :: vec3
  lastDir :: vec3
  noiseTime :: real
  orbitAngle :: real
  coilActivation :: real


text \<open>
  The seek force of \<open>nextCurve\<close> for a target: the desired direction before the wander
  force is blended in, and the new orbit phase and coil activation.
\<close>

definition seekForce ::
  "CurveGeneratorOptions \<Rightarrow> Heading \<Rightarrow> real \<Rightarrow> vec3 \<Rightarrow> vec3 \<times> real \<times> real" where
  "seekForce options h len tgt =
     (let toTarget = vsub tgt (lastPoint h);
          dist = vlength toTarget;
          targetDir = normalizeV toTarget;
          tangent0 = Vec3 (- vz targetDir) 0 (vx targetDir);
          isOrbiting = dist < orbitRadius options * 1.5;
          (oAngle, cAct) =
            (if isOrbiting
             then
               let circumference = 2 * pi * orbitRadius options;
                   arcFraction = len / circumference
               in (orbitAngle h + arcFraction * 2 * pi, min 1 (coilActivation h + 0.15))
             else (orbitAngle h, max 0 (coilActivation h - 0.15)));
          desiredDir =
            (if dist > orbitRadius options * 1.5 then targetDir
             else
               let radiusError = dist - orbitRadius options;
                   radialStrength = radiusError * 0.1;
                   coilY = coilAmplitude options * coilFrequency options *
                           cos (coilFrequency options * oAngle) * cAct;
                   coilTangent = Vec3 (vx tangent0) coilY (vz tangent0)
               in normalizeV (addScaledVector coilTangent targetDir radialStrength))
      in (desiredDir, oAngle, cAct))"

text \<open>
  The desired direction of a call, after the wander force and the normalisation with its
  fallback to the last direction. \<open>nTime\<close> is the noise time of the call.
\<close>

definition desiredDirection ::
  "CurveGeneratorOptions \<Rightarrow> (real \<Rightarrow> real \<Rightarrow> real) \<Rightarrow> Heading \<Rightarrow> real \<Rightarrow> vec3 \<Rightarrow> vec3" where
  "desiredDirection options noise2D h nTime steer =
     (let wander = wanderForce (lastDir h) noise2D nTime (wanderStrength options)
                     (tiltStrength options);
          wanderDelta = vsub wander (lastDir h);
          desiredDir = vadd steer (multiplyScalar wanderDelta (wanderWeight options))
      in if lengthSq desiredDir > 0.001 then normalizeV desiredDir else lastDir h)"

text \<open>
  The steering force of a call: the seek force when there is a target, the last direction
  scaled by the orbit weight when there is none.
\<close>

definition steering ::
  "CurveGeneratorOptions \<Rightarrow> Heading \<Rightarrow> real \<Rightarrow> vec3 option \<Rightarrow> vec3 \<times> real \<times> real" where
  "steering options h len tgt =
     (case tgt of
        Some t \<Rightarrow> seekForce options h len t
      | None \<Rightarrow>
          (vadd (Vec3 0 0 0) (multiplyScalar (lastDir h) (orbitWeight options)),
           orbitAngle h, coilActivation h))"

text \<open>
  One call of \<open>nextCurve\<close>. \<open>rnd\<close> is the value \<open>Math.random()\<close> returns in the call,
  \<open>noise2D\<close> the noise function made by \<open>createNoise2D\<close>.
\<close>

definition segmentLen :: "CurveGeneratorOptions \<Rightarrow> real \<Rightarrow> real" where
  "segmentLen options rnd =
     minLength (segmentLength options) +
     rnd * (maxLength (segmentLength options) - minLength (segmentLength options))"

definition nextCurve ::
  "CurveGeneratorOptions \<Rightarrow> (real \<Rightarrow> real \<Rightarrow> real) \<Rightarrow> real \<Rightarrow> Heading \<Rightarrow> vec3 option
     \<Rightarrow> curve \<times> Heading" where
  "nextCurve options noise2D rnd h tgt =
     (let len = segmentLen options rnd;
          nTime = noiseTime h + 0.01;
          (steer, oAngle, cAct) = steering options h len tgt;
          desiredDir = desiredDirection options noise2D h nTime steer;
          newDir = limitTurnRate (lastDir h) desiredDir (maxTurnRate options);
          endPoint = vadd (lastPoint h) (multiplyScalar newDir len);
          turnAngle = angleTo (lastDir h) newDir;
          turnFactor = min 1 (turnAngle / (pi / 2));
          controlDist = len * (0.33 + 0.34 * turnFactor);
          cp1 = vadd (lastPoint h) (multiplyScalar (lastDir h) controlDist);
          cp2 = vsub endPoint (multiplyScalar newDir controlDist)
      in (\<lparr>v0 = lastPoint h, v1 = cp1, v2 = cp2, v3 = endPoint\<rparr>,
          \<lparr>lastPoint = endPoint, lastDir = newDir, noiseTime = nTime, orbitAngle = oAngle,
           coilActivation = cAct\<rparr>))"

text \<open>
  The desired direction that a call hands to \<open>limitTurnRate\<close>, and the axis about which
  \<open>limitTurnRate\<close> rotates when the desired direction is out of reach.
\<close>

definition callDesired ::
  "CurveGeneratorOptions \<Rightarrow> (real \<Rightarrow> real \<Rightarrow> real) \<Rightarrow> real \<Rightarrow> Heading \<Rightarrow> vec3 option \<Rightarrow> vec3" where
  "callDesired options noise2D rnd h tgt =
     desiredDirection options noise2D h (noiseTime h + 0.01)
       (fst (steering options h (segmentLen options rnd) tgt))"

definition turnAxis :: "vec3 \<Rightarrow> vec3 \<Rightarrow> vec3" where
  "turnAxis current desired =
     (let axis0 = crossVectors current desired
      in if lengthSq axis0 < 0.0001
         then
           let a = (if \<bar>vy current\<bar> > 0.9 then Vec3 1 0 0 else Vec3 0 1 0)
           in normalizeV (crossVectors current a)
         else normalizeV axis0)"

text \<open>
  The headings of a run of calls, the first being the heading before the first call;
  each call comes with its random number and its target.
\<close>

fun headings ::
  "CurveGeneratorOptions \<Rightarrow> (real \<Rightarrow> real \<Rightarrow> real) \<Rightarrow> Heading \<Rightarrow> (real \<times> vec3 option) list
     \<Rightarrow> Heading list" where
  "headings options noise2D h [] = [h]"
| "headings options noise2D h ((rnd, tgt) # calls) =
     h # headings options noise2D (snd (nextCurve options noise2D rnd h tgt)) calls"

text \<open>
  The generator as the manager's \<open>nextCurveFn\<close>: its state is the heading and the number
  of calls so far, \<open>randoms\<close> is the sequence of values of \<open>Math.random()\<close>.
\<close>

definition createCurveGenerator ::
  "CurveGeneratorOptions \<Rightarrow> (real \<Rightarrow> real \<Rightarrow> real) \<Rightarrow> (nat \<Rightarrow> real)
     \<Rightarrow> Heading \<times> nat \<Rightarrow> vec3 option \<Rightarrow> curve \<times> Heading \<times> nat" where
  "createCurveGenerator options noise2D randoms g tgt =
     (let (c, h') = nextCurve options noise2D (randoms (snd g)) (fst g) tgt
      in (c, h', snd g + 1))"

section \<open>The endless curve manager\<close>

text \<open>
  The fields of class \<open>EndlessCurve\<close>. \<open>nextCurveFn\<close> is a closure over mutable state in the
  source; here it is a function on that state (\<open>genState\<close>), returning the segment and the
  new state. \<open>normals\<close> and \<open>uValues\<close> are the two arrays of \<open>frameCache\<close>.
\<close>

record 'g EndlessCurve =
  curves :: "curve list"
  distanceOffset :: real
  uStart :: real
  uLength :: real
  nextCurveFn :: "'g \<Rightarrow> vec3 option \<Rightarrow> curve \<times> 'g"
  genState :: 'g
  target :: "vec3 option"
  normals :: "vec3 list"
  uValues :: "real list"
  samplesPerCurve :: nat
  lastNormal :: vec3

definition newEndlessCurve :: "('g \<Rightarrow> vec3 option \<Rightarrow> curve \<times> 'g) \<Rightarrow> 'g \<Rightarrow> 'g EndlessCurve" where
  "newEndlessCurve fn g =
     \<lparr>curves = [], distanceOffset = 0, uStart = 0, uLength = 1, nextCurveFn = fn,
      genState = g, target = None, normals = [], uValues = [], samplesPerCurve = 10,
      lastNormal = Vec3 0 1 0\<rparr>"

definition setTarget :: "'g EndlessCurve \<Rightarrow> vec3 \<Rightarrow> 'g EndlessCurve" where
  "setTarget m t = m\<lparr>target := Some t\<rparr>"

definition localDistance :: "'g EndlessCurve \<Rightarrow> real \<Rightarrow> real" where
  "localDistance m globalDistance = globalDistance - distanceOffset m"

text \<open>
  \<open>CurvePath.getCurveLengths\<close>: the running sums of the segments' lengths. The program
  resets the library's cache of them at every change of the segment list, so they are
  always those of the current list. \<open>CurvePath.getLength\<close> is the last of them.
\<close>

fun cumulative :: "real \<Rightarrow> real list \<Rightarrow> real list" where
  "cumulative acc [] = []"
| "cumulative acc (l # ls) = (acc + l) # cumulative (acc + l) ls"

definition getCurveLengths :: "three \<Rightarrow> 'g EndlessCurve \<Rightarrow> real list" where
  "getCurveLengths lib m = cumulative 0 (map (curveGetLength lib) (curves m))"

definition getLength :: "three \<Rightarrow> 'g EndlessCurve \<Rightarrow> real" where
  "getLength lib m = last (getCurveLengths lib m)"

definition getLengthSafe :: "three \<Rightarrow> 'g EndlessCurve \<Rightarrow> real" where
  "getLengthSafe lib m = (if length (curves m) = 0 then 0 else getLength lib m)"

subsection \<open>Parallel transport frames\<close>

definition parallelTransport :: "vec3 \<Rightarrow> vec3 \<Rightarrow> vec3 \<Rightarrow> vec3" where
  "parallelTransport prevNormal prevTangent newTangent =
     (let d = dot prevTangent newTangent
      in if d > 0.9999 then prevNormal
         else
           let axis0 = crossVectors prevTangent newTangent;
               axis =
                 (if lengthSq axis0 < 0.0001
                  then
                    let a = (if \<bar>dot prevTangent (Vec3 1 0 0)\<bar> > 0.9 then Vec3 0 1 0
                             else Vec3 1 0 0)
                    in normalizeV (crossVectors a prevTangent)
                  else normalizeV axis0);
               angle = arccos (max (- 1) (min 1 d));
               rotated = applyAxisAngle prevNormal axis angle;
               projected = vsub rotated (multiplyScalar newTangent (dot rotated newTangent))
           in normalizeV projected)"

definition getArbitraryPerpendicular :: "vec3 \<Rightarrow> vec3" where
  "getArbitraryPerpendicular v =
     (let up = (if \<bar>dot v (Vec3 0 1 0)\<bar> > 0.9 then Vec3 1 0 0 else Vec3 0 1 0)
      in normalizeV (crossVectors v up))"

text \<open>
  The two nested loops of \<open>recalculateUValues\<close>: \<open>frameIndex\<close> runs over the cache, the
  inner loop stops (\<open>break\<close>) once it is past the end of \<open>uValues\<close>.
\<close>

fun recalcInner ::
  "real \<Rightarrow> real \<Rightarrow> real \<Rightarrow> nat \<Rightarrow> nat list \<Rightarrow> real list \<times> nat \<Rightarrow> real list \<times> nat" where
  "recalcInner startLength curveLength totalLength S [] st = st"
| "recalcInner startLength curveLength totalLength S (i # rest) (us, frameIndex) =
     (if frameIndex \<ge> length us then (us, frameIndex)
      else
        let localU = real i / real S
        in recalcInner startLength curveLength totalLength S rest
             (us[frameIndex := (startLength + curveLength * localU) / totalLength],
              frameIndex + 1))"

fun recalcOuter ::
  "real list \<Rightarrow> real \<Rightarrow> nat \<Rightarrow> nat list \<Rightarrow> real list \<times> nat \<Rightarrow> real list \<times> nat" where
  "recalcOuter curveLengths totalLength S [] st = st"
| "recalcOuter curveLengths totalLength S (curveIndex # rest) st =
     (let startLength = (if curveIndex > 0 then curveLengths ! (curveIndex - 1) else 0);
          endLength = curveLengths ! curveIndex;
          curveLength = endLength - startLength
      in recalcOuter curveLengths totalLength S rest
           (recalcInner startLength curveLength totalLength S [0..<S + 1] st))"

definition recalculateUValues :: "three \<Rightarrow> 'g EndlessCurve \<Rightarrow> 'g EndlessCurve" where
  "recalculateUValues lib m =
     (if length (curves m) = 0 then m
      else
        let totalLength = getLength lib m;
            curveLengths = getCurveLengths lib m
        in m\<lparr>uValues :=
               fst (recalcOuter curveLengths totalLength (samplesPerCurve m)
                      [0..<length (curves m)] (uValues m, 0))\<rparr>)"

text \<open>
  The sampling loop of \<open>computeFramesForCurve\<close>, for \<open>i = 0 .. samplesPerCurve\<close>: the state
  is the two arrays, \<open>prevNormal\<close> and \<open>prevTangent\<close>.
\<close>

fun framesLoop ::
  "three \<Rightarrow> curve \<Rightarrow> nat \<Rightarrow> nat list \<Rightarrow> vec3 list \<times> real list \<times> vec3 \<times> vec3
     \<Rightarrow> vec3 list \<times> real list \<times> vec3 \<times> vec3" where
  "framesLoop lib c S [] st = st"
| "framesLoop lib c S (i # rest) (ns, us, prevNormal, prevTangent) =
     (let localU = real i / real S;
          tangent = getAnalyticalTangent lib c localU;
          normal = parallelTransport prevNormal prevTangent tangent
      in framesLoop lib c S rest (ns @ [normal], us @ [0], normal, tangent))"

definition computeFramesForCurve :: "three \<Rightarrow> 'g EndlessCurve \<Rightarrow> nat \<Rightarrow> 'g EndlessCurve" where
  "computeFramesForCurve lib m curveIndex =
     (let c = curves m ! curveIndex;
          (prevNormal, prevTangent) =
            (if curveIndex > 0
             then (lastNormal m, getAnalyticalTangent lib (curves m ! (curveIndex - 1)) 1)
             else
               let t0 = getAnalyticalTangent lib c 0
               in (getArbitraryPerpendicular t0, t0));
          (ns, us, lastN, lastT) =
            framesLoop lib c (samplesPerCurve m) [0..<samplesPerCurve m + 1]
              (normals m, uValues m, prevNormal, prevTangent)
      in recalculateUValues lib (m\<lparr>normals := ns, uValues := us, lastNormal := lastN\<rparr>))"

definition addCurve :: "three \<Rightarrow> 'g EndlessCurve \<Rightarrow> curve \<Rightarrow> 'g EndlessCurve" where
  "addCurve lib m c =
     (let curveIndex = length (curves m)
      in computeFramesForCurve lib (m\<lparr>curves := curves m @ [c]\<rparr>) curveIndex)"

subsection \<open>Filling, evicting, setting the window\<close>

text \<open>
  \<open>fillLength\<close> calls itself until the cached length exceeds the requested local distance;
  nothing in it bounds the number of calls, so the model is a partial function and
  \<open>None\<close> stands for a call that never returns.
\<close>

partial_function (option) fillLength ::
  "three \<Rightarrow> 'g EndlessCurve \<Rightarrow> real \<Rightarrow> 'g EndlessCurve option" where
  "fillLength lib m len =
     (let localLen = localDistance m len;
          currentLen = getLengthSafe lib m
      in if localLen < currentLen then Some m
         else
           case nextCurveFn m (genState m) (target m) of
             (newCurve, g') \<Rightarrow> fillLength lib (addCurve lib (m\<lparr>genState := g'\<rparr>) newCurve) len)"

text \<open>The loop of \<open>removeCurvesBefore\<close> over the running sums, with its \<open>break\<close>.\<close>

fun countRemove :: "real \<Rightarrow> real list \<Rightarrow> nat \<times> real \<Rightarrow> nat \<times> real" where
  "countRemove p [] st = st"
| "countRemove p (l # ls) (remove, off) =
     (if p < l then (remove, off) else countRemove p ls (remove + 1, l))"

definition removeCurvesBefore :: "three \<Rightarrow> 'g EndlessCurve \<Rightarrow> real \<Rightarrow> 'g EndlessCurve" where
  "removeCurvesBefore lib m position =
     (let p = localDistance m position;
          lengths = getCurveLengths lib m;
          (remove, off) = countRemove p lengths (0, 0)
      in if remove \<noteq> 0
         then
           let framesToRemove = remove * (samplesPerCurve m + 1)
           in recalculateUValues lib
                (m\<lparr>distanceOffset := distanceOffset m + off,
                   curves := drop remove (curves m),
                   normals := drop framesToRemove (normals m),
                   uValues := drop framesToRemove (uValues m)\<rparr>)
         else m)"

definition configureStartEnd ::
  "three \<Rightarrow> 'g EndlessCurve \<Rightarrow> real \<Rightarrow> real \<Rightarrow> 'g EndlessCurve option" where
  "configureStartEnd lib m position len =
     (case fillLength lib m (position + len) of
        None \<Rightarrow> None
      | Some m1 \<Rightarrow>
          let m2 = removeCurvesBefore lib m1 position;
              localPos = localDistance m2 position;
              totalLen = getLengthSafe lib m2
          in Some (m2\<lparr>uStart := (if totalLen > 0 then localPos / totalLen else 0),
                      uLength := (if totalLen > 0 then len / totalLen else 1)\<rparr>))"

subsection \<open>Queries\<close>

text \<open>
  Reading an array out of range yields \<open>undefined\<close> in the source: a comparison with it is
  false, and calling a method on it (or reading a component of it) throws a
  \<open>TypeError\<close>. \<open>nthOpt\<close> is the read, \<open>None\<close> standing for \<open>undefined\<close>; indices are
  integers, since \<open>uValues.length - 1\<close> is \<open>-1\<close> on an empty array.
\<close>

datatype error = TypeError

definition nthOpt :: "'a list \<Rightarrow> int \<Rightarrow> 'a option" where
  "nthOpt xs i = (if 0 \<le> i \<and> i < int (length xs) then Some (xs ! nat i) else None)"

definition leOpt :: "real option \<Rightarrow> real option \<Rightarrow> bool" where
  "leOpt a b = (case (a, b) of (Some x, Some y) \<Rightarrow> x \<le> y | _ \<Rightarrow> False)"

text \<open>The binary search of \<open>interpolateNormal\<close>: \<open>while (low < high - 1)\<close>.\<close>

function searchSamples :: "real list \<Rightarrow> real \<Rightarrow> int \<Rightarrow> int \<Rightarrow> int \<times> int" where
  "searchSamples us u low high =
     (if low < high - 1
      then
        let mid = (low + high) div 2
        in if leOpt (nthOpt us mid) (Some u) then searchSamples us u mid high
           else searchSamples us u low mid
      else (low, high))"
  by pat_completeness auto
termination
  by (relation "measure (\<lambda>(us, u, low, high). nat (high - low))") auto

definition interpolateNormal :: "three \<Rightarrow> 'g EndlessCurve \<Rightarrow> real \<Rightarrow> error + vec3" where
  "interpolateNormal lib m u =
     (if length (normals m) = 0
      then Inr (getArbitraryPerpendicular (normalizeV (pathGetTangentAt lib (curves m) u)))
      else if length (normals m) = 1 then Inr (normals m ! 0)
      else
        let high0 = int (length (uValues m)) - 1
        in if leOpt (Some u) (nthOpt (uValues m) 0) then Inr (normals m ! 0)
           else if leOpt (nthOpt (uValues m) high0) (Some u)
           then (case nthOpt (normals m) high0 of
                   None \<Rightarrow> Inl TypeError
                 | Some n \<Rightarrow> Inr n)
           else
             let (low, high) = searchSamples (uValues m) u 0 high0;
                 uLow = nthOpt (uValues m) low;
                 uHigh = nthOpt (uValues m) high;
                 t = (case (uLow, uHigh) of
                        (Some a, Some b) \<Rightarrow> if b > a then (u - a) / (b - a) else 0
                      | _ \<Rightarrow> 0)
             in case (nthOpt (normals m) low, nthOpt (normals m) high) of
                  (Some nl, Some nh) \<Rightarrow> Inr (normalizeV (lerp nl nh t))
                | _ \<Rightarrow> Inl TypeError)"

record CurveBasis =
  position :: vec3
  normal :: vec3
  tangent :: vec3

definition getBasisAt :: "three \<Rightarrow> 'g EndlessCurve \<Rightarrow> real \<Rightarrow> error + CurveBasis" where
  "getBasisAt lib m u =
     (let pos = pathGetPointAt lib (curves m) u;
          tan = normalizeV (pathGetTangentAt lib (curves m) u)
      in case interpolateNormal lib m u of
           Inl e \<Rightarrow> Inl e
         | Inr n \<Rightarrow> Inr \<lparr>position = pos, normal = n, tangent = tan\<rparr>)"

definition getPointAtLocal :: "three \<Rightarrow> 'g EndlessCurve \<Rightarrow> real \<Rightarrow> vec3" where
  "getPointAtLocal lib m u =
     (let u2 = uStart m + uLength m * u in pathGetPointAt lib (curves m) (min u2 1))"

definition getBasisAtLocal :: "three \<Rightarrow> 'g EndlessCurve \<Rightarrow> real \<Rightarrow> error + CurveBasis" where
  "getBasisAtLocal lib m u =
     (let u2 = uStart m + uLength m * u in getBasisAt lib m (min u2 1))"

subsection \<open>Auxiliary notions\<close>

text \<open>
  The frame cache is aligned with the segment list when both arrays hold
  \<open>samplesPerCurve + 1\<close> entries for every segment.
\<close>

definition cacheAligned :: "'g EndlessCurve \<Rightarrow> bool" where
  "cacheAligned m =
     (length (normals m) = length (curves m) * (samplesPerCurve m + 1) \<and>
      length (uValues m) = length (curves m) * (samplesPerCurve m + 1))"

text \<open>The number of segments a call of \<open>removeCurvesBefore\<close> evicts (its \<open>remove\<close>).\<close>

definition evictCount :: "three \<Rightarrow> 'g EndlessCurve \<Rightarrow> real \<Rightarrow> nat" where
  "evictCount lib m pos =
     fst (countRemove (localDistance m pos) (getCurveLengths lib m) (0, 0))"

text \<open>The normal and the tangent that seed the transport along an appended segment.\<close>

definition seedFrame :: "three \<Rightarrow> 'g EndlessCurve \<Rightarrow> curve \<Rightarrow> vec3 \<times> vec3" where
  "seedFrame lib m c =
     (if curves m \<noteq> [] then (lastNormal m, getAnalyticalTangent lib (last (curves m)) 1)
      else (getArbitraryPerpendicular (getAnalyticalTangent lib c 0), getAnalyticalTangent lib c 0))"

text \<open>
  The last normal is cached when \<open>lastNormal\<close> is the last entry of the cache of normals;
  the boundaries are continuous when the last sample of every segment carries the same
  normal as the first sample of the next one.
\<close>

definition lastNormalCached :: "'g EndlessCurve \<Rightarrow> bool" where
  "lastNormalCached m = (curves m \<noteq> [] \<longrightarrow> lastNormal m = last (normals m))"

definition boundariesContinuous :: "'g EndlessCurve \<Rightarrow> bool" where
  "boundariesContinuous m =
     (\<forall>i. i + 1 < length (curves m) \<longrightarrow>
        normals m ! (i * (samplesPerCurve m + 1) + samplesPerCurve m) =
        normals m ! ((i + 1) * (samplesPerCurve m + 1)))"

text \<open>
  Two segments join with matching tangents when the exact tangent at the end of the
  first and the exact tangent at the start of the second pass the test by which
  \<open>parallelTransport\<close> takes two tangents for parallel.
\<close>

definition tangentJoin :: "three \<Rightarrow> curve \<Rightarrow> curve \<Rightarrow> bool" where
  "tangentJoin lib c1 c2 =
     (dot (getAnalyticalTangent lib c1 1) (getAnalyticalTangent lib c2 0) > 0.9999)"


text \<open>
  The state of a generator after it has been called with the targets \<open>ts\<close>, one call per
  target: the states a manager's generator can reach are those after some such run.
\<close>

definition genStateAfter ::
  "('g \<Rightarrow> vec3 option \<Rightarrow> curve \<times> 'g) \<Rightarrow> 'g \<Rightarrow> vec3 option list \<Rightarrow> 'g" where
  "genStateAfter fn g ts = foldl (\<lambda>s t. snd (fn s t)) g ts"


section \<open>Example instances\<close>

text \<open>
  Straight segments along the x axis, a library instance that measures and evaluates
  them, and a generator that emits them end to end, each of length \<open>l\<close>; its state is
  the x coordinate reached.
\<close>

definition straight :: "real \<Rightarrow> real \<Rightarrow> curve" where
  "straight a b =
     \<lparr>v0 = Vec3 a 0 0, v1 = Vec3 (a + (b - a) / 3) 0 0, v2 = Vec3 (b - (b - a) / 3) 0 0,
      v3 = Vec3 b 0 0\<rparr>"

definition axisLib :: three where
  "axisLib =
     \<lparr>curveGetLength = (\<lambda>c. \<bar>vx (v3 c) - vx (v0 c)\<bar>),
      curveGetTangentAt = (\<lambda>c t. Vec3 1 0 0),
      pathGetPointAt = (\<lambda>cs u. if cs = [] then Vec3 0 0 0
         else Vec3 (vx (v0 (hd cs)) + u * (vx (v3 (last cs)) - vx (v0 (hd cs)))) 0 0),
      pathGetTangentAt = (\<lambda>cs u. Vec3 1 0 0)\<rparr>"

definition stepGen :: "real \<Rightarrow> real \<Rightarrow> vec3 option \<Rightarrow> curve \<times> real" where
  "stepGen l a t = (straight a (a + l), a + l)"

text \<open>
  Five such segments of length 6 appended to a new manager, and the manager after its
  generator has emitted one segment of length 6.
\<close>

definition fiveSegments :: "real EndlessCurve" where
  "fiveSegments =
     foldl (addCurve axisLib) (newEndlessCurve (stepGen 6) 0)
       [straight 0 6, straight 6 12, straight 12 18, straight 18 24, straight 24 30]"

definition oneSegment :: "real EndlessCurve" where
  "oneSegment = addCurve axisLib ((newEndlessCurve (stepGen 6) 0)\<lparr>genState := 6\<rparr>) (straight 0 6)"

text \<open>
  A generator whose \<open>n\<close>-th segment runs from \<open>1 - (1/2)^n\<close> to \<open>1 - (1/2)^(n + 1)\<close> on the
  x axis: every segment has positive length, and all of them together stay short of 1.
\<close>

definition zenoGen :: "nat \<Rightarrow> vec3 option \<Rightarrow> curve \<times> nat" where
  "zenoGen n t = (straight (1 - (1 / 2) ^ n) (1 - (1 / 2) ^ (n + 1)), n + 1)"

text \<open>
  A library instance for straight segments with equally spaced control points, in any
  direction: the length is three times the first handle, the tangent is the direction of
  the first handle, a point of the path is found by walking the segments.
\<close>

fun pointAlong :: "curve list \<Rightarrow> real \<Rightarrow> vec3" where
  "pointAlong [] d = Vec3 0 0 0"
| "pointAlong [c] d = vadd (v0 c) (multiplyScalar (normalizeV (vsub (v1 c) (v0 c))) d)"
| "pointAlong (c # c' # cs) d =
     (let l = 3 * vlength (vsub (v1 c) (v0 c))
      in if d \<le> l then vadd (v0 c) (multiplyScalar (normalizeV (vsub (v1 c) (v0 c))) d)
         else pointAlong (c' # cs) (d - l))"

fun tangentAlong :: "curve list \<Rightarrow> real \<Rightarrow> vec3" where
  "tangentAlong [] d = Vec3 0 0 0"
| "tangentAlong [c] d = normalizeV (vsub (v1 c) (v0 c))"
| "tangentAlong (c # c' # cs) d =
     (let l = 3 * vlength (vsub (v1 c) (v0 c))
      in if d \<le> l then normalizeV (vsub (v1 c) (v0 c)) else tangentAlong (c' # cs) (d - l))"

definition uniformLib :: three where
  "uniformLib =
     \<lparr>curveGetLength = (\<lambda>c. 3 * vlength (vsub (v1 c) (v0 c))),
      curveGetTangentAt = (\<lambda>c t. normalizeV (vsub (v1 c) (v0 c))),
      pathGetPointAt =
        (\<lambda>cs u. pointAlong cs (u * sum_list (map (\<lambda>c. 3 * vlength (vsub (v1 c) (v0 c))) cs))),
      pathGetTangentAt =
        (\<lambda>cs u. tangentAlong cs (u * sum_list (map (\<lambda>c. 3 * vlength (vsub (v1 c) (v0 c))) cs)))\<rparr>"

text \<open>
  Segments of length 3 along the x axis, and one that leaves the point \<open>(3, 0, 0)\<close> along
  the z axis.
\<close>

definition unitStraight :: "real \<Rightarrow> curve" where
  "unitStraight a =
     \<lparr>v0 = Vec3 a 0 0, v1 = Vec3 (a + 1) 0 0, v2 = Vec3 (a + 2) 0 0, v3 = Vec3 (a + 3) 0 0\<rparr>"

definition alongZ :: curve where
  "alongZ = \<lparr>v0 = Vec3 3 0 0, v1 = Vec3 3 0 1, v2 = Vec3 3 0 2, v3 = Vec3 3 0 3\<rparr>"




section \<open>Running sums and the loops over the cache\<close>

lemma length_cumulative [simp]: "length (cumulative a ls) = length ls"
  by (induction ls arbitrary: a) auto

lemma cumulative_eq_Nil [simp]: "cumulative a ls = [] \<longleftrightarrow> ls = []"
  by (cases ls) auto

lemma cumulative_nth:
  "i < length ls \<Longrightarrow> cumulative a ls ! i = a + sum_list (take (Suc i) ls)"
proof (induction ls arbitrary: a i)
  case Nil
  then show ?case by simp
next
  case (Cons l ls)
  show ?case
  proof (cases i)
    case 0
    then show ?thesis by simp
  next
    case (Suc j)
    with Cons show ?thesis by (simp add: add.assoc)
  qed
qed

lemma last_cumulative:
  "ls \<noteq> [] \<Longrightarrow> last (cumulative a ls) = a + sum_list ls"
  by (induction ls arbitrary: a) (auto simp: add.assoc)

lemma length_recalcInner [simp]:
  "length (fst (recalcInner s c t S idx st)) = length (fst st)"
  by (induction s c t S idx st rule: recalcInner.induct) (auto simp: Let_def)

lemma length_recalcOuter [simp]:
  "length (fst (recalcOuter ls t S idx st)) = length (fst st)"
  by (induction ls t S idx st rule: recalcOuter.induct) (auto simp: Let_def)

lemma recalculateUValues_fields [simp]:
  "curves (recalculateUValues lib m) = curves m"
  "distanceOffset (recalculateUValues lib m) = distanceOffset m"
  "uStart (recalculateUValues lib m) = uStart m"
  "uLength (recalculateUValues lib m) = uLength m"
  "nextCurveFn (recalculateUValues lib m) = nextCurveFn m"
  "genState (recalculateUValues lib m) = genState m"
  "target (recalculateUValues lib m) = target m"
  "normals (recalculateUValues lib m) = normals m"
  "samplesPerCurve (recalculateUValues lib m) = samplesPerCurve m"
  "lastNormal (recalculateUValues lib m) = lastNormal m"
  "length (uValues (recalculateUValues lib m)) = length (uValues m)"
  by (simp_all add: recalculateUValues_def Let_def)

lemma framesLoop_lengths:
  "framesLoop lib c S idx (ns, us, pn, pt) = (ns', us', pn', pt') \<Longrightarrow>
     length ns' = length ns + length idx \<and> length us' = length us + length idx"
  by (induction idx arbitrary: ns us pn pt) (auto simp: Let_def)

section \<open>Appending and evicting segments\<close>

lemma addCurve_fields [simp]:
  "curves (addCurve lib m c) = curves m @ [c]"
  "distanceOffset (addCurve lib m c) = distanceOffset m"
  "uStart (addCurve lib m c) = uStart m"
  "uLength (addCurve lib m c) = uLength m"
  "nextCurveFn (addCurve lib m c) = nextCurveFn m"
  "genState (addCurve lib m c) = genState m"
  "target (addCurve lib m c) = target m"
  "samplesPerCurve (addCurve lib m c) = samplesPerCurve m"
  by (simp_all add: addCurve_def computeFramesForCurve_def Let_def split: prod.splits)

lemma addCurve_cache_lengths:
  "length (normals (addCurve lib m c)) = length (normals m) + (samplesPerCurve m + 1)"
  "length (uValues (addCurve lib m c)) = length (uValues m) + (samplesPerCurve m + 1)"
  by (auto simp: addCurve_def computeFramesForCurve_def Let_def split: prod.splits
      dest!: framesLoop_lengths)

lemma countRemove_takeWhile:
  "countRemove p ls (r, off) =
     (r + length (takeWhile (\<lambda>l. l \<le> p) ls),
      if takeWhile (\<lambda>l. l \<le> p) ls = [] then off else last (takeWhile (\<lambda>l. l \<le> p) ls))"
  by (induction ls arbitrary: r off) (auto simp: not_less)

lemma evictCount_le: "evictCount lib m pos \<le> length (curves m)"
  using length_takeWhile_le [of "\<lambda>l. l \<le> localDistance m pos" "getCurveLengths lib m"]
  by (simp add: evictCount_def countRemove_takeWhile getCurveLengths_def)

lemma removeCurvesBefore_fields [simp]:
  "curves (removeCurvesBefore lib m pos) = drop (evictCount lib m pos) (curves m)"
  "normals (removeCurvesBefore lib m pos) =
     drop (evictCount lib m pos * (samplesPerCurve m + 1)) (normals m)"
  "length (uValues (removeCurvesBefore lib m pos)) =
     length (uValues m) - evictCount lib m pos * (samplesPerCurve m + 1)"
  "uStart (removeCurvesBefore lib m pos) = uStart m"
  "uLength (removeCurvesBefore lib m pos) = uLength m"
  "nextCurveFn (removeCurvesBefore lib m pos) = nextCurveFn m"
  "genState (removeCurvesBefore lib m pos) = genState m"
  "target (removeCurvesBefore lib m pos) = target m"
  "samplesPerCurve (removeCurvesBefore lib m pos) = samplesPerCurve m"
  "lastNormal (removeCurvesBefore lib m pos) = lastNormal m"
  by (auto simp add: removeCurvesBefore_def evictCount_def Let_def split: prod.splits)

lemma removeCurvesBefore_noop:
  "evictCount lib m pos = 0 \<Longrightarrow> removeCurvesBefore lib m pos = m"
  by (auto simp add: removeCurvesBefore_def evictCount_def Let_def split: prod.splits)

lemma cacheAligned_new: "cacheAligned (newEndlessCurve fn g)"
  by (simp add: cacheAligned_def newEndlessCurve_def)

lemma cacheAligned_addCurve: "cacheAligned m \<Longrightarrow> cacheAligned (addCurve lib m c)"
  by (simp add: cacheAligned_def addCurve_cache_lengths)

lemma cacheAligned_removeCurvesBefore:
  assumes "cacheAligned m"
  shows "cacheAligned (removeCurvesBefore lib m pos)"
proof -
  obtain d where d: "length (curves m) = evictCount lib m pos + d"
    using evictCount_le [of lib m pos] le_Suc_ex by blast
  with assms show ?thesis
    by (simp add: cacheAligned_def add_mult_distrib)
qed

section \<open>The frame cache stays aligned with the segment list\<close>

text \<open>
  Claim C7. The cache of a new manager is aligned (\<open>cacheAligned_new\<close>). From an aligned
  cache, \<open>addCurve\<close> (with its frame computation) and \<open>removeCurvesBefore\<close> both end
  with \<open>length normals = length uValues = segmentCount * (samplesPerCurve + 1)\<close>; the
  appended segment adds exactly \<open>samplesPerCurve + 1\<close> entries to each array, and an
  eviction takes exactly \<open>samplesPerCurve + 1\<close> entries from each array for every segment
  it removes.
\<close>

theorem frame_cache_aligned:
  assumes "cacheAligned m"
  shows "cacheAligned (addCurve lib m c) \<and>
         length (normals (addCurve lib m c)) = length (normals m) + (samplesPerCurve m + 1) \<and>
         length (uValues (addCurve lib m c)) = length (uValues m) + (samplesPerCurve m + 1) \<and>
         cacheAligned (removeCurvesBefore lib m pos) \<and>
         length (normals (removeCurvesBefore lib m pos)) =
           length (normals m) -
           (length (curves m) - length (curves (removeCurvesBefore lib m pos))) *
             (samplesPerCurve m + 1) \<and>
         length (uValues (removeCurvesBefore lib m pos)) =
           length (uValues m) -
           (length (curves m) - length (curves (removeCurvesBefore lib m pos))) *
             (samplesPerCurve m + 1)"
proof -
  have k: "length (curves m) - length (curves (removeCurvesBefore lib m pos)) =
           evictCount lib m pos"
    using evictCount_le [of lib m pos] by simp
  show ?thesis
    unfolding k
    using assms cacheAligned_addCurve [of m lib c]
      cacheAligned_removeCurvesBefore [of m lib pos]
    by (simp add: addCurve_cache_lengths)
qed

theorem frame_cache_aligned_witness:
  "cacheAligned (newEndlessCurve (stepGen 6) 0) \<and>
   cacheAligned (addCurve axisLib (newEndlessCurve (stepGen 6) 0) (straight 0 6)) \<and>
   length (normals (addCurve axisLib (newEndlessCurve (stepGen 6) 0) (straight 0 6))) = 11"
proof -
  have h: "cacheAligned (newEndlessCurve (stepGen 6) 0)"
    by (simp add: cacheAligned_def newEndlessCurve_def)
  have e: "normals (newEndlessCurve (stepGen 6) 0) = []"
    "samplesPerCurve (newEndlessCurve (stepGen 6) 0) = 10"
    by (simp_all add: newEndlessCurve_def)
  from frame_cache_aligned [OF h, of axisLib "straight 0 6" 0] h e
  show ?thesis by simp
qed

section \<open>Filling\<close>

lemma fillLength_post:
  assumes "fillLength lib m len = Some m'"
  shows "localDistance m' len < getLengthSafe lib m'"
proof (rule fillLength.raw_induct
    [where P = "\<lambda>lib m len m'. localDistance m' len < getLengthSafe lib m'", OF _ assms])
  fix fl lib m len y
  assume "\<And>m len b y. fl m len b = Some y \<Longrightarrow> localDistance y b < getLengthSafe m y"
    and "(let localLen = localDistance m len; currentLen = getLengthSafe lib m
      in if localLen < currentLen then Some m
         else case nextCurveFn m (genState m) (target m) of
              (newCurve, g') \<Rightarrow> fl lib (addCurve lib (m\<lparr>genState := g'\<rparr>) newCurve) len) = Some y"
  then show "localDistance y len < getLengthSafe lib y"
    by (auto simp: Let_def split: if_splits prod.splits)
qed

lemma getLengthSafe_sum:
  "getLengthSafe lib m = sum_list (map (curveGetLength lib) (curves m))"
  by (simp add: getLengthSafe_def getLength_def getCurveLengths_def last_cumulative)

lemma fillLength_keeps:
  assumes "fillLength lib m len = Some m'"
  shows "distanceOffset m' = distanceOffset m \<and> uStart m' = uStart m \<and> uLength m' = uLength m \<and>
         target m' = target m \<and> samplesPerCurve m' = samplesPerCurve m \<and>
         nextCurveFn m' = nextCurveFn m \<and> (cacheAligned m \<longrightarrow> cacheAligned m') \<and>
         (\<exists>ext. curves m' = curves m @ ext)"
proof (rule fillLength.raw_induct
    [where P = "\<lambda>lib m len m'. distanceOffset m' = distanceOffset m \<and> uStart m' = uStart m \<and> uLength m' = uLength m \<and>
         target m' = target m \<and> samplesPerCurve m' = samplesPerCurve m \<and>
         nextCurveFn m' = nextCurveFn m \<and> (cacheAligned m \<longrightarrow> cacheAligned m') \<and>
         (\<exists>ext. curves m' = curves m @ ext)", OF _ assms], goal_cases)
  case (1 fl lib m len y)
  show ?case
  proof (cases "localDistance m len < getLengthSafe lib m")
    case True
    with 1(2) show ?thesis by (simp add: Let_def)
  next
    case False
    obtain c g' where cg: "nextCurveFn m (genState m) (target m) = (c, g')"
      by (cases "nextCurveFn m (genState m) (target m)")
    let ?m1 = "addCurve lib (m\<lparr>genState := g'\<rparr>) c"
    from 1(2) False cg have "fl lib ?m1 len = Some y" by (simp add: Let_def)
    from 1(1) [OF this] have ih: "distanceOffset y = distanceOffset ?m1 \<and> uStart y = uStart ?m1 \<and> uLength y = uLength ?m1 \<and>
         target y = target ?m1 \<and> samplesPerCurve y = samplesPerCurve ?m1 \<and>
         nextCurveFn y = nextCurveFn ?m1 \<and> (cacheAligned ?m1 \<longrightarrow> cacheAligned y) \<and>
         (\<exists>ext. curves y = curves ?m1 @ ext)" .
    have "cacheAligned m \<Longrightarrow> cacheAligned ?m1"
      using cacheAligned_addCurve [of "m\<lparr>genState := g'\<rparr>" lib c]
      by (simp add: cacheAligned_def)
    with ih show ?thesis by auto
  qed
qed

section \<open>Eviction\<close>

lemma evictCount_takeWhile:
  "evictCount lib m pos =
     length (takeWhile (\<lambda>l. l \<le> localDistance m pos) (getCurveLengths lib m))"
  by (simp add: evictCount_def countRemove_takeWhile)

lemma length_getCurveLengths [simp]: "length (getCurveLengths lib m) = length (curves m)"
  by (simp add: getCurveLengths_def)

lemma getCurveLengths_nth:
  "i < length (curves m) \<Longrightarrow>
     getCurveLengths lib m ! i = sum_list (map (curveGetLength lib) (take (Suc i) (curves m)))"
  by (simp add: getCurveLengths_def cumulative_nth take_map)

text \<open>Segments before the count are at or before the local position; the next one is past it.\<close>

lemma evicted_le:
  assumes "i < evictCount lib m pos"
  shows "getCurveLengths lib m ! i \<le> localDistance m pos"
proof -
  let ?P = "\<lambda>l. l \<le> localDistance m pos"
  let ?ls = "getCurveLengths lib m"
  from assms have i: "i < length (takeWhile ?P ?ls)" by (simp add: evictCount_takeWhile)
  then have "takeWhile ?P ?ls ! i \<in> set (takeWhile ?P ?ls)" by simp
  then have "?P (takeWhile ?P ?ls ! i)" by (rule set_takeWhileD [THEN conjunct2])
  with i show ?thesis by (simp add: takeWhile_nth)
qed

lemma kept_gt:
  assumes "evictCount lib m pos < length (curves m)"
  shows "localDistance m pos < getCurveLengths lib m ! evictCount lib m pos"
  using assms nth_length_takeWhile [of "\<lambda>l. l \<le> localDistance m pos" "getCurveLengths lib m"]
  by (simp add: evictCount_takeWhile not_le)

lemma removeCurvesBefore_offset:
  "distanceOffset (removeCurvesBefore lib m pos) =
     distanceOffset m + sum_list (map (curveGetLength lib) (take (evictCount lib m pos) (curves m)))"
proof (cases "evictCount lib m pos = 0")
  case True
  then show ?thesis by (simp add: removeCurvesBefore_noop)
next
  case False
  let ?P = "\<lambda>l. l \<le> localDistance m pos"
  let ?ls = "getCurveLengths lib m"
  let ?k = "evictCount lib m pos"
  have k: "?k = length (takeWhile ?P ?ls)" by (rule evictCount_takeWhile)
  with False have ne: "takeWhile ?P ?ls \<noteq> []" by auto
  have kle: "?k \<le> length (curves m)" by (rule evictCount_le)
  from ne have "last (takeWhile ?P ?ls) = takeWhile ?P ?ls ! (?k - 1)"
    by (simp add: last_conv_nth k)
  also have "\<dots> = ?ls ! (?k - 1)"
    using False by (intro takeWhile_nth) (simp add: k [symmetric])
  also have "\<dots> = sum_list (map (curveGetLength lib) (take ?k (curves m)))"
    using False kle by (simp add: getCurveLengths_nth)
  finally have l: "last (takeWhile ?P ?ls) = sum_list (map (curveGetLength lib) (take ?k (curves m)))" .
  have "countRemove (localDistance m pos) ?ls (0, 0) = (?k, last (takeWhile ?P ?ls))"
    using ne by (simp add: countRemove_takeWhile k)
  with False l show ?thesis
    by (simp add: removeCurvesBefore_def Let_def)
qed

lemma sorted_cumulative:
  "\<forall>l \<in> set ls. 0 \<le> l \<Longrightarrow> sorted (cumulative a ls) \<and> (\<forall>x \<in> set (cumulative a ls). a \<le> x)"
proof (induction ls arbitrary: a)
  case Nil
  then show ?case by simp
next
  case (Cons l ls)
  then have ih: "sorted (cumulative (a + l) ls) \<and> (\<forall>x \<in> set (cumulative (a + l) ls). a + l \<le> x)"
    by simp
  from Cons.prems have "0 \<le> l" by simp
  with ih show ?case by fastforce
qed

lemma evict_iff:
  assumes nonneg: "\<forall>c \<in> set (curves m). 0 \<le> curveGetLength lib c"
    and i: "i < length (curves m)"
  shows "(getCurveLengths lib m ! i \<le> localDistance m pos) = (i < evictCount lib m pos)"
proof
  assume le: "getCurveLengths lib m ! i \<le> localDistance m pos"
  show "i < evictCount lib m pos"
  proof (rule ccontr)
    assume "\<not> i < evictCount lib m pos"
    then have ki: "evictCount lib m pos \<le> i" by simp
    with i have "evictCount lib m pos < length (curves m)" by simp
    then have gt: "localDistance m pos < getCurveLengths lib m ! evictCount lib m pos"
      by (rule kept_gt)
    have "sorted (getCurveLengths lib m)"
      using nonneg sorted_cumulative [of "map (curveGetLength lib) (curves m)" 0]
      by (simp add: getCurveLengths_def)
    then have "getCurveLengths lib m ! evictCount lib m pos \<le> getCurveLengths lib m ! i"
      using ki i by (simp add: sorted_nth_mono)
    with gt le show False by simp
  qed
next
  assume "i < evictCount lib m pos"
  then show "getCurveLengths lib m ! i \<le> localDistance m pos" by (rule evicted_le)
qed

section \<open>Exact eviction\<close>

lemma fiveSegments_fields:
  "curves fiveSegments = [straight 0 6, straight 6 12, straight 12 18, straight 18 24, straight 24 30]"
  "distanceOffset fiveSegments = 0"
  "samplesPerCurve fiveSegments = 10"
  by (simp_all add: fiveSegments_def newEndlessCurve_def)

lemma fiveSegments_lengths: "getCurveLengths axisLib fiveSegments = [6, 12, 18, 24, 30]"
  by (simp add: getCurveLengths_def fiveSegments_fields axisLib_def straight_def)

lemma fiveSegments_evictCount: "evictCount axisLib fiveSegments 20 = 3"
  by (simp add: evictCount_def fiveSegments_lengths localDistance_def fiveSegments_fields)

text \<open>
  Claim C3. With segment lengths that are not negative, \<open>removeCurvesBefore pos\<close> removes
  exactly the segments whose running length is at most the local window start
  \<open>pos - distanceOffset\<close>: segment \<open>i\<close> is such a segment iff \<open>i\<close> is below the number of evicted
  segments, and the remaining list is the old one without that prefix. The cache of
  normals loses the first \<open>samplesPerCurve + 1\<close> entries for each of them, the array of
  u-values shrinks by as many, and \<open>distanceOffset\<close> grows by the summed length of the
  removed segments. The witness is the case of five segments of length 6 and \<open>pos = 20\<close>:
  three segments go, \<open>distanceOffset\<close> becomes 18.
\<close>

theorem evict_exact:
  assumes "\<forall>c \<in> set (curves m). 0 \<le> curveGetLength lib c"
  shows "(\<forall>i < length (curves m).
            (getCurveLengths lib m ! i \<le> pos - distanceOffset m) = (i < evictCount lib m pos)) \<and>
         curves (removeCurvesBefore lib m pos) = drop (evictCount lib m pos) (curves m) \<and>
         normals (removeCurvesBefore lib m pos) =
           drop (evictCount lib m pos * (samplesPerCurve m + 1)) (normals m) \<and>
         length (uValues (removeCurvesBefore lib m pos)) =
           length (uValues m) - evictCount lib m pos * (samplesPerCurve m + 1) \<and>
         distanceOffset (removeCurvesBefore lib m pos) =
           distanceOffset m +
           sum_list (map (curveGetLength lib) (take (evictCount lib m pos) (curves m)))"
  using evict_iff [OF assms, of _ pos]
  by (simp add: removeCurvesBefore_offset localDistance_def)

theorem evict_exact_witness:
  "getLengthSafe axisLib fiveSegments = 30 \<and>
   evictCount axisLib fiveSegments 20 = 3 \<and>
   curves (removeCurvesBefore axisLib fiveSegments 20) = [straight 18 24, straight 24 30] \<and>
   distanceOffset (removeCurvesBefore axisLib fiveSegments 20) = 18 \<and>
   normals (removeCurvesBefore axisLib fiveSegments 20) = drop 33 (normals fiveSegments)"
proof -
  have h: "\<forall>c \<in> set (curves fiveSegments). 0 \<le> curveGetLength axisLib c"
    by (simp add: fiveSegments_fields axisLib_def)
  have l: "getLengthSafe axisLib fiveSegments = 30"
    by (simp add: getLengthSafe_def getLength_def fiveSegments_lengths fiveSegments_fields)
  have s: "sum_list (map (curveGetLength axisLib) (take 3 (curves fiveSegments))) = 18"
    by (simp add: fiveSegments_fields axisLib_def straight_def)
  have d: "drop 3 (curves fiveSegments) = [straight 18 24, straight 24 30]"
    by (simp add: fiveSegments_fields)
  from evict_exact [OF h, of 20] l s d show ?thesis
    by (simp add: fiveSegments_evictCount fiveSegments_fields(2,3))
qed

section \<open>Setting the window\<close>

lemma configureStartEnd_Some:
  assumes "configureStartEnd lib m pos len = Some m'"
  obtains mf where "fillLength lib m (pos + len) = Some mf"
    and "m' = (removeCurvesBefore lib mf pos)
           \<lparr>uStart := (if getLengthSafe lib (removeCurvesBefore lib mf pos) > 0
                        then localDistance (removeCurvesBefore lib mf pos) pos /
                             getLengthSafe lib (removeCurvesBefore lib mf pos) else 0),
            uLength := (if getLengthSafe lib (removeCurvesBefore lib mf pos) > 0
                        then len / getLengthSafe lib (removeCurvesBefore lib mf pos) else 1)\<rparr>"
  using assms by (auto simp: configureStartEnd_def Let_def split: option.splits)

lemma window_irrelevant [simp]:
  "getLengthSafe lib (m\<lparr>uStart := a\<rparr>) = getLengthSafe lib m"
  "getLengthSafe lib (m\<lparr>uLength := b\<rparr>) = getLengthSafe lib m"
  "localDistance (m\<lparr>uStart := a\<rparr>) x = localDistance m x"
  "localDistance (m\<lparr>uLength := b\<rparr>) x = localDistance m x"
  "evictCount lib (m\<lparr>uStart := a\<rparr>) x = evictCount lib m x"
  "evictCount lib (m\<lparr>uLength := b\<rparr>) x = evictCount lib m x"
  by (simp_all add: getLengthSafe_def getLength_def getCurveLengths_def localDistance_def
      evictCount_def)

lemma fillLength_done:
  "localDistance m len < getLengthSafe lib m \<Longrightarrow> fillLength lib m len = Some m"
  by (subst fillLength.simps) (simp add: Let_def)

lemma fillLength_step:
  "\<not> localDistance m len < getLengthSafe lib m \<Longrightarrow>
     fillLength lib m len =
       fillLength lib
         (addCurve lib (m\<lparr>genState := snd (nextCurveFn m (genState m) (target m))\<rparr>)
            (fst (nextCurveFn m (genState m) (target m)))) len"
  by (subst fillLength.simps) (simp add: Let_def split: prod.splits)

lemma oneSegment_fields:
  "curves oneSegment = [straight 0 6]"
  "distanceOffset oneSegment = 0"
  "getLengthSafe axisLib oneSegment = 6"
  by (simp_all add: oneSegment_def newEndlessCurve_def getLengthSafe_sum axisLib_def straight_def)

lemma fill_oneSegment:
  assumes "0 \<le> l" "l < 6"
  shows "fillLength axisLib (newEndlessCurve (stepGen 6) 0) l = Some oneSegment"
proof -
  let ?m = "newEndlessCurve (stepGen 6) (0::real)"
  have n: "\<not> localDistance ?m l < getLengthSafe axisLib ?m"
    using assms by (simp add: localDistance_def getLengthSafe_def newEndlessCurve_def)
  have g: "nextCurveFn ?m (genState ?m) (target ?m) = (straight 0 6, 6)"
    by (simp add: newEndlessCurve_def stepGen_def)
  have "fillLength axisLib ?m l = fillLength axisLib oneSegment l"
    by (simp add: fillLength_step [OF n] g oneSegment_def)
  also have "\<dots> = Some oneSegment"
    using assms by (intro fillLength_done) (simp add: localDistance_def oneSegment_fields)
  finally show ?thesis .
qed

lemma evict_oneSegment:
  "p < 6 \<Longrightarrow> removeCurvesBefore axisLib oneSegment p = oneSegment"
  by (rule removeCurvesBefore_noop)
    (simp add: evictCount_def getCurveLengths_def oneSegment_fields localDistance_def
      axisLib_def straight_def)

lemma configure_oneSegment:
  assumes "0 \<le> p + l" "p + l < 6" "p < 6"
  shows "configureStartEnd axisLib (newEndlessCurve (stepGen 6) 0) p l =
           Some (oneSegment\<lparr>uStart := p / 6, uLength := l / 6\<rparr>)"
  using assms
  by (simp add: configureStartEnd_def fill_oneSegment evict_oneSegment oneSegment_fields
      localDistance_def Let_def)

text \<open>
  Claim C4, as the code has it. When \<open>configureStartEnd pos len\<close> returns, with the total
  cached length and \<open>distanceOffset\<close> read after filling and evicting: if the total length
  is positive, \<open>uStart = (pos - distanceOffset) / totalLength\<close> and
  \<open>uLength = len / totalLength\<close>; otherwise nothing is divided, \<open>uStart\<close> is 0 and
  \<open>uLength\<close> is 1.
\<close>

theorem window_set:
  assumes "configureStartEnd lib m pos len = Some m'"
  shows "uStart m' =
           (if getLengthSafe lib m' > 0 then (pos - distanceOffset m') / getLengthSafe lib m'
            else 0) \<and>
         uLength m' = (if getLengthSafe lib m' > 0 then len / getLengthSafe lib m' else 1)"
proof -
  from assms obtain mf where "fillLength lib m (pos + len) = Some mf"
    and m': "m' = (removeCurvesBefore lib mf pos)
           \<lparr>uStart := (if getLengthSafe lib (removeCurvesBefore lib mf pos) > 0
                        then localDistance (removeCurvesBefore lib mf pos) pos /
                             getLengthSafe lib (removeCurvesBefore lib mf pos) else 0),
            uLength := (if getLengthSafe lib (removeCurvesBefore lib mf pos) > 0
                        then len / getLengthSafe lib (removeCurvesBefore lib mf pos) else 1)\<rparr>"
    by (rule configureStartEnd_Some)
  let ?m2 = "removeCurvesBefore lib mf pos"
  have "getLengthSafe lib m' = getLengthSafe lib ?m2" "distanceOffset m' = distanceOffset ?m2"
    "uStart m' = (if getLengthSafe lib ?m2 > 0
                  then localDistance ?m2 pos / getLengthSafe lib ?m2 else 0)"
    "uLength m' = (if getLengthSafe lib ?m2 > 0 then len / getLengthSafe lib ?m2 else 1)"
    by (simp_all add: m')
  then show ?thesis
    by (simp add: localDistance_def)
qed

theorem window_set_witness:
  "map_option uStart (configureStartEnd axisLib (newEndlessCurve (stepGen 6) 0) 3 2) = Some (1 / 2) \<and>
   map_option uLength (configureStartEnd axisLib (newEndlessCurve (stepGen 6) 0) 3 2) = Some (1 / 3)"
proof -
  have r: "configureStartEnd axisLib (newEndlessCurve (stepGen 6) 0) 3 2 =
             Some (oneSegment\<lparr>uStart := 3 / 6, uLength := 2 / 6\<rparr>)"
    by (rule configure_oneSegment) simp_all
  from window_set [OF r] show ?thesis
    by (simp add: r oneSegment_fields)
qed

text \<open>
  The claim has \<open>uLength = 0\<close> in the second case. On a new manager,
  \<open>configureStartEnd (-1) 0\<close> generates nothing, the total length is 0, and \<open>uLength\<close> is 1.
\<close>

theorem window_set_counterexample:
  "map_option (getLengthSafe axisLib)
     (configureStartEnd axisLib (newEndlessCurve (stepGen 6) 0) (- 1) 0) = Some 0 \<and>
   map_option uLength
     (configureStartEnd axisLib (newEndlessCurve (stepGen 6) 0) (- 1) 0) = Some 1"
proof -
  let ?m = "newEndlessCurve (stepGen 6) (0::real)"
  have f: "fillLength axisLib ?m (- 1) = Some ?m"
    by (rule fillLength_done) (simp add: localDistance_def getLengthSafe_def newEndlessCurve_def)
  have k: "evictCount axisLib ?m (- 1) = 0"
    by (simp add: evictCount_def getCurveLengths_def newEndlessCurve_def)
  have l: "getLengthSafe axisLib ?m = 0"
    by (simp add: getLengthSafe_def newEndlessCurve_def)
  show ?thesis
    by (simp add: configureStartEnd_def f removeCurvesBefore_noop [OF k] l Let_def)
qed

section \<open>Calling configureStartEnd twice\<close>

lemma getLengthSafe_removeCurvesBefore:
  "getLengthSafe lib (removeCurvesBefore lib m pos) =
     getLengthSafe lib m - sum_list (map (curveGetLength lib) (take (evictCount lib m pos) (curves m)))"
proof -
  have "sum_list (map (curveGetLength lib) (curves m)) =
        sum_list (map (curveGetLength lib) (take (evictCount lib m pos) (curves m))) +
        sum_list (map (curveGetLength lib) (drop (evictCount lib m pos) (curves m)))"
    by (metis append_take_drop_id map_append sum_list_append)
  then show ?thesis
    by (simp add: getLengthSafe_sum)
qed

lemma removeCurvesBefore_filled:
  assumes "localDistance m l < getLengthSafe lib m"
  shows "localDistance (removeCurvesBefore lib m pos) l < getLengthSafe lib (removeCurvesBefore lib m pos)"
  using assms
  by (simp add: getLengthSafe_removeCurvesBefore localDistance_def removeCurvesBefore_offset)

lemma evictCount_removeCurvesBefore:
  "evictCount lib (removeCurvesBefore lib m pos) pos = 0"
proof (cases "evictCount lib m pos < length (curves m)")
  case False
  then have "curves (removeCurvesBefore lib m pos) = []" by simp
  then show ?thesis
    by (simp add: evictCount_def getCurveLengths_def)
next
  case True
  let ?k = "evictCount lib m pos"
  let ?m2 = "removeCurvesBefore lib m pos"
  from True have gt: "localDistance m pos < getCurveLengths lib m ! ?k" by (rule kept_gt)
  from True have d: "drop ?k (curves m) = curves m ! ?k # drop (Suc ?k) (curves m)"
    by (simp add: Cons_nth_drop_Suc)
  have "getCurveLengths lib m ! ?k =
        sum_list (map (curveGetLength lib) (take ?k (curves m))) + curveGetLength lib (curves m ! ?k)"
    using True by (simp add: getCurveLengths_nth take_Suc_conv_app_nth)
  with gt have lt: "localDistance ?m2 pos < curveGetLength lib (curves m ! ?k)"
    by (simp add: localDistance_def removeCurvesBefore_offset)
  have "curves ?m2 = curves m ! ?k # drop (Suc ?k) (curves m)"
    using d by simp
  then have "getCurveLengths lib ?m2 =
      curveGetLength lib (curves m ! ?k) #
      cumulative (curveGetLength lib (curves m ! ?k))
        (map (curveGetLength lib) (drop (Suc ?k) (curves m)))"
    by (simp add: getCurveLengths_def)
  with lt show ?thesis
    by (simp add: evictCount_takeWhile)
qed

lemma removeCurvesBefore_idem:
  "removeCurvesBefore lib (removeCurvesBefore lib m pos) pos = removeCurvesBefore lib m pos"
  by (rule removeCurvesBefore_noop) (rule evictCount_removeCurvesBefore)

text \<open>
  In the exact arithmetic of the model a second call of \<open>configureStartEnd\<close> with the same
  arguments changes nothing: if \<open>configureStartEnd pos len\<close> returns the manager \<open>m1\<close>, the
  same call on \<open>m1\<close> returns \<open>m1\<close> again, so \<open>getPointAtLocal u\<close> and \<open>getBasisAtLocal u\<close> give
  the same results after it. The proof rests on two comparisons that eviction leaves as
  they were, \<open>(pos + len) - (offset + r) < total - r\<close> for the fill
  (\<open>removeCurvesBefore_filled\<close>) and \<open>pos - (offset + r) < l\<close> for the first segment kept
  (\<open>evictCount_removeCurvesBefore\<close>), where \<open>r\<close> is the length evicted. These are identities
  of exact arithmetic. The program evaluates each side in doubles, in which the two
  sides of either comparison can differ when \<open>pos + len\<close> or \<open>pos\<close> lies on a boundary:
  the lemma describes the program only as far as its arithmetic is exact, and makes no
  statement about a run in which rounding moves one of the comparisons.
\<close>

lemma configure_twice_exact:
  assumes "configureStartEnd lib m pos len = Some m1"
  shows "configureStartEnd lib m1 pos len = Some m1 \<and>
         map_option (\<lambda>m2. getPointAtLocal lib m2 u) (configureStartEnd lib m1 pos len) =
           Some (getPointAtLocal lib m1 u) \<and>
         map_option (\<lambda>m2. getBasisAtLocal lib m2 u) (configureStartEnd lib m1 pos len) =
           Some (getBasisAtLocal lib m1 u)"
proof -
  from assms obtain mf where f: "fillLength lib m (pos + len) = Some mf"
    and m1: "m1 = (removeCurvesBefore lib mf pos)
           \<lparr>uStart := (if getLengthSafe lib (removeCurvesBefore lib mf pos) > 0
                        then localDistance (removeCurvesBefore lib mf pos) pos /
                             getLengthSafe lib (removeCurvesBefore lib mf pos) else 0),
            uLength := (if getLengthSafe lib (removeCurvesBefore lib mf pos) > 0
                        then len / getLengthSafe lib (removeCurvesBefore lib mf pos) else 1)\<rparr>"
    by (rule configureStartEnd_Some)
  let ?m2 = "removeCurvesBefore lib mf pos"
  have "localDistance mf (pos + len) < getLengthSafe lib mf"
    using f by (rule fillLength_post)
  then have "localDistance ?m2 (pos + len) < getLengthSafe lib ?m2"
    by (rule removeCurvesBefore_filled)
  then have "localDistance m1 (pos + len) < getLengthSafe lib m1"
    by (simp add: m1)
  then have f1: "fillLength lib m1 (pos + len) = Some m1"
    by (rule fillLength_done)
  have "evictCount lib m1 pos = 0"
    using evictCount_removeCurvesBefore [of lib mf pos] by (simp add: m1)
  then have r1: "removeCurvesBefore lib m1 pos = m1"
    by (rule removeCurvesBefore_noop)
  have w: "getLengthSafe lib m1 = getLengthSafe lib ?m2" "localDistance m1 pos = localDistance ?m2 pos"
    by (simp_all add: m1)
  have u: "uStart m1 = (if getLengthSafe lib ?m2 > 0
                  then localDistance ?m2 pos / getLengthSafe lib ?m2 else 0)"
    "uLength m1 = (if getLengthSafe lib ?m2 > 0 then len / getLengthSafe lib ?m2 else 1)"
    by (simp_all add: m1)
  have "configureStartEnd lib m1 pos len = Some (m1\<lparr>uStart := uStart m1, uLength := uLength m1\<rparr>)"
    by (simp add: configureStartEnd_def f1 r1 w u Let_def)
  then have "configureStartEnd lib m1 pos len = Some m1" by simp
  then show ?thesis by simp
qed

section \<open>The window is never empty\<close>

text \<open>
  Claim C9. Let \<open>len \<ge> 0\<close> and \<open>pos + len \<ge> distanceOffset\<close>. When
  \<open>configureStartEnd pos len\<close> returns, the segment list is not empty: the fill returned
  with the cached length strictly above the local end of the window, so the eviction
  stops before the last segment, which is still the last one of the list. On a manager
  whose cache was aligned, the cache of normals is not empty either, so
  \<open>interpolateNormal\<close> does not take its fallback for an empty cache.
\<close>

theorem window_never_empty:
  assumes len: "0 \<le> len"
    and start: "distanceOffset m \<le> pos + len"
    and ret: "configureStartEnd lib m pos len = Some m'"
  shows "curves m' \<noteq> [] \<and> (cacheAligned m \<longrightarrow> normals m' \<noteq> []) \<and>
         (\<exists>mf. fillLength lib m (pos + len) = Some mf \<and>
               localDistance mf (pos + len) < getLengthSafe lib mf \<and>
               last (curves m') = last (curves mf))"
proof -
  from ret obtain mf where f: "fillLength lib m (pos + len) = Some mf"
    and m': "m' = (removeCurvesBefore lib mf pos)
           \<lparr>uStart := (if getLengthSafe lib (removeCurvesBefore lib mf pos) > 0
                        then localDistance (removeCurvesBefore lib mf pos) pos /
                             getLengthSafe lib (removeCurvesBefore lib mf pos) else 0),
            uLength := (if getLengthSafe lib (removeCurvesBefore lib mf pos) > 0
                        then len / getLengthSafe lib (removeCurvesBefore lib mf pos) else 1)\<rparr>"
    by (rule configureStartEnd_Some)
  let ?k = "evictCount lib mf pos"
  let ?n = "length (curves mf)"
  have filled: "localDistance mf (pos + len) < getLengthSafe lib mf"
    using f by (rule fillLength_post)
  from fillLength_keeps [OF f] have off: "distanceOffset mf = distanceOffset m"
    and al: "cacheAligned m \<Longrightarrow> cacheAligned mf" by simp_all
  from start off have nonneg: "0 \<le> localDistance mf (pos + len)"
    by (simp add: localDistance_def)
  with filled have pos_len: "0 < getLengthSafe lib mf" by simp
  then have ne: "curves mf \<noteq> []"
    by (auto simp: getLengthSafe_def)
  then have n: "0 < ?n" by simp
  have k: "?k < ?n"
  proof (rule ccontr)
    assume "\<not> ?k < ?n"
    with n evictCount_le [of lib mf pos] have "?n - 1 < ?k" by simp
    then have "getCurveLengths lib mf ! (?n - 1) \<le> localDistance mf pos"
      by (rule evicted_le)
    moreover have "getCurveLengths lib mf ! (?n - 1) = getLengthSafe lib mf"
      using ne by (simp add: getLengthSafe_def getLength_def last_conv_nth getCurveLengths_def)
    moreover have "localDistance mf pos \<le> localDistance mf (pos + len)"
      using len by (simp add: localDistance_def)
    ultimately show False using filled by simp
  qed
  have c: "curves m' = drop ?k (curves mf)"
    by (simp add: m')
  with k have c_ne: "curves m' \<noteq> []" by simp
  have l: "last (curves m') = last (curves mf)"
    using k by (simp add: c)
  have "normals m' \<noteq> []" if "cacheAligned m"
  proof -
    from that have "cacheAligned (removeCurvesBefore lib mf pos)"
      by (intro cacheAligned_removeCurvesBefore al)
    then have "length (normals m') = length (curves m') * (samplesPerCurve m' + 1)"
      by (simp add: cacheAligned_def m')
    with c_ne show ?thesis by auto
  qed
  with c_ne f filled l show ?thesis by simp
qed

theorem window_never_empty_witness:
  "map_option curves (configureStartEnd axisLib (newEndlessCurve (stepGen 6) 0) 3 2) =
     Some [straight 0 6] \<and>
   map_option (\<lambda>m. normals m = []) (configureStartEnd axisLib (newEndlessCurve (stepGen 6) 0) 3 2) =
     Some False"
proof -
  have r: "configureStartEnd axisLib (newEndlessCurve (stepGen 6) 0) 3 2 =
             Some (oneSegment\<lparr>uStart := 3 / 6, uLength := 2 / 6\<rparr>)"
    by (rule configure_oneSegment) simp_all
  have d: "distanceOffset (newEndlessCurve (stepGen 6) (0::real)) \<le> 3 + 2"
    by (simp add: newEndlessCurve_def)
  have l: "(0::real) \<le> 2" by simp
  from window_never_empty [OF l d r] show ?thesis
    by (simp add: r oneSegment_fields cacheAligned_new)
qed

section \<open>The offset along a run of calls\<close>







section \<open>Vector algebra\<close>

lemma dot_applyQuaternion:
  "dot v (applyQuaternion v q w) = lengthSq v + 2 * ((dot q v)\<^sup>2 - lengthSq v * lengthSq q)"
  by (cases v; cases q) (simp add: dot_def applyQuaternion_def lengthSq_def Let_def power2_eq_square algebra_simps)

lemma lengthSq_applyQuaternion:
  "lengthSq (applyQuaternion v q w) =
     lengthSq v + 4 * (w\<^sup>2 + lengthSq q - 1) * (lengthSq q * lengthSq v - (dot q v)\<^sup>2)"
  by (cases v; cases q) (simp add: dot_def applyQuaternion_def lengthSq_def Let_def power2_eq_square algebra_simps)

lemma lengthSq_nonneg [simp]: "0 \<le> lengthSq a"
  by (simp add: lengthSq_def)

lemma lengthSq_multiplyScalar [simp]: "lengthSq (multiplyScalar a s) = s\<^sup>2 * lengthSq a"
  by (simp add: lengthSq_def multiplyScalar_def power2_eq_square algebra_simps)

lemma dot_multiplyScalar_left [simp]: "dot (multiplyScalar a s) b = s * dot a b"
  by (simp add: dot_def multiplyScalar_def algebra_simps)

lemma dot_multiplyScalar_right [simp]: "dot a (multiplyScalar b s) = s * dot a b"
  by (simp add: dot_def multiplyScalar_def algebra_simps)

lemma dot_commute: "dot a b = dot b a"
  by (simp add: dot_def mult.commute)

lemma dot_self: "dot a a = lengthSq a"
  by (simp add: dot_def lengthSq_def)

lemma dot_cross_left [simp]: "dot (crossVectors a b) a = 0"
  by (simp add: dot_def crossVectors_def algebra_simps)

lemma dot_cross_right [simp]: "dot (crossVectors a b) b = 0"
  by (simp add: dot_def crossVectors_def algebra_simps)

lemma lengthSq_normalizeV:
  assumes "lengthSq a \<noteq> 0"
  shows "lengthSq (normalizeV a) = 1"
proof -
  have pos: "0 < lengthSq a" using assms lengthSq_nonneg [of a] by linarith
  then have "sqrt (lengthSq a) \<noteq> 0" by simp
  moreover have "(1 / sqrt (lengthSq a))\<^sup>2 * lengthSq a = 1"
    using pos by (simp add: power_divide)
  ultimately show ?thesis
    by (simp add: normalizeV_def vlength_def Let_def)
qed

lemma dot_normalizeV_left: "dot a b = 0 \<Longrightarrow> dot (normalizeV a) b = 0"
  by (simp add: normalizeV_def Let_def)

text \<open>
  A rotation about a unit axis keeps the length of a vector; about a unit axis
  perpendicular to the vector it turns the vector by the angle.
\<close>

lemma lengthSq_applyAxisAngle:
  assumes "lengthSq k = 1"
  shows "lengthSq (applyAxisAngle v k a) = lengthSq v"
proof -
  have "(cos (a / 2))\<^sup>2 + (sin (a / 2))\<^sup>2 - 1 = 0" by simp
  then show ?thesis
    using assms by (simp add: applyAxisAngle_def Let_def lengthSq_applyQuaternion)
qed

lemma dot_applyAxisAngle:
  assumes "lengthSq k = 1" "dot k v = 0"
  shows "dot v (applyAxisAngle v k a) = lengthSq v * cos a"
proof -
  have c: "cos a = 1 - 2 * (sin (a / 2))\<^sup>2"
    using cos_double_sin [of "a / 2"] by simp
  have "dot v (applyAxisAngle v k a) = lengthSq v - 2 * (lengthSq v * (sin (a / 2))\<^sup>2)"
    using assms by (simp add: applyAxisAngle_def Let_def dot_applyQuaternion)
  also have "\<dots> = lengthSq v * (1 - 2 * (sin (a / 2))\<^sup>2)"
    by (simp add: algebra_simps)
  finally show ?thesis
    by (simp only: c)
qed

lemma clamp_id: "lo \<le> v \<Longrightarrow> v \<le> hi \<Longrightarrow> clamp v lo hi = v"
  by (simp add: clamp_def)

lemma clamp_bounds: "lo \<le> hi \<Longrightarrow> lo \<le> clamp v lo hi \<and> clamp v lo hi \<le> hi"
  by (auto simp: clamp_def)

lemma angleTo_bounds: "0 \<le> angleTo a b \<and> angleTo a b \<le> pi"
  using clamp_bounds [of "- 1" 1 "dot a b / sqrt (lengthSq a * lengthSq b)"]
  by (simp add: angleTo_def Let_def arccos_lbound arccos_ubound)

lemma angleTo_unit:
  "lengthSq a = 1 \<Longrightarrow> lengthSq b = 1 \<Longrightarrow> angleTo a b = arccos (clamp (dot a b) (- 1) 1)"
  by (simp add: angleTo_def)

lemma angleTo_rotated:
  assumes v: "lengthSq v = 1" and k: "lengthSq k = 1" "dot k v = 0"
    and a: "0 \<le> a" "a \<le> pi"
  shows "angleTo v (applyAxisAngle v k a) = a"
proof -
  have "lengthSq (applyAxisAngle v k a) = 1"
    using v k(1) by (simp add: lengthSq_applyAxisAngle)
  with v have "angleTo v (applyAxisAngle v k a) = arccos (clamp (cos a) (- 1) 1)"
    using k by (simp add: angleTo_unit dot_applyAxisAngle)
  also have "clamp (cos a) (- 1) 1 = cos a"
    by (rule clamp_id) simp_all
  also have "arccos (cos a) = a"
    using a by (rule arccos_cos)
  finally show ?thesis .
qed

lemma angleTo_self: "lengthSq v = 1 \<Longrightarrow> angleTo v v = 0"
  by (simp add: angleTo_unit dot_self clamp_def)

lemma fallback_axis_nonzero:
  assumes "lengthSq v = 1"
  shows "lengthSq (crossVectors v (if \<bar>vy v\<bar> > 0.9 then Vec3 1 0 0 else Vec3 0 1 0)) \<noteq> 0"
proof (cases "\<bar>vy v\<bar> > 0.9")
  case True
  then have "0.9 * 0.9 < \<bar>vy v\<bar> * \<bar>vy v\<bar>"
    by (intro mult_strict_mono) simp_all
  then have "0.81 < vy v * vy v"
    by simp
  then have "vy v \<noteq> 0" by auto
  then show ?thesis
    using True by (simp add: crossVectors_def lengthSq_def)
next
  case False
  then have "\<bar>vy v\<bar> \<le> 0.9" by simp
  then have "\<bar>vy v\<bar> * \<bar>vy v\<bar> \<le> 0.9 * 0.9"
    by (intro mult_mono) simp_all
  then have "vy v * vy v \<le> 0.81" by simp
  with assms have "vx v * vx v + vz v * vz v > 0"
    by (simp add: lengthSq_def)
  with False show ?thesis
    by (auto simp: crossVectors_def lengthSq_def)
qed

lemma turnAxis_unit:
  assumes "lengthSq current = 1"
  shows "lengthSq (turnAxis current desired) = 1 \<and> dot (turnAxis current desired) current = 0"
proof (cases "lengthSq (crossVectors current desired) < 0.0001")
  case True
  let ?a = "if \<bar>vy current\<bar> > 0.9 then Vec3 1 0 0 else Vec3 0 1 0"
  have "lengthSq (crossVectors current ?a) \<noteq> 0"
    using assms by (rule fallback_axis_nonzero)
  then have "lengthSq (normalizeV (crossVectors current ?a)) = 1"
    by (rule lengthSq_normalizeV)
  moreover have "dot (normalizeV (crossVectors current ?a)) current = 0"
    by (rule dot_normalizeV_left) simp
  ultimately show ?thesis
    using True by (simp add: turnAxis_def Let_def)
next
  case False
  then have "lengthSq (crossVectors current desired) \<noteq> 0" by auto
  then have "lengthSq (normalizeV (crossVectors current desired)) = 1"
    by (rule lengthSq_normalizeV)
  moreover have "dot (normalizeV (crossVectors current desired)) current = 0"
    by (rule dot_normalizeV_left) simp
  ultimately show ?thesis
    using False by (simp add: turnAxis_def Let_def)
qed

lemma limitTurnRate_cases:
  "limitTurnRate current desired maxRate =
     (if angleTo current desired \<le> maxRate then desired
      else if angleTo current desired < 0.001 then current
      else applyAxisAngle current (turnAxis current desired) maxRate)"
  by (simp add: limitTurnRate_def turnAxis_def Let_def)

lemma limitTurnRate_bound:
  assumes c: "lengthSq current = 1" and d: "lengthSq desired = 1" and m: "0 \<le> maxRate"
  shows "angleTo current (limitTurnRate current desired maxRate) \<le> maxRate \<and>
         lengthSq (limitTurnRate current desired maxRate) = 1"
proof (cases "angleTo current desired \<le> maxRate")
  case True
  with d show ?thesis by (simp add: limitTurnRate_cases)
next
  case False
  note far = this
  show ?thesis
  proof (cases "angleTo current desired < 0.001")
    case True
    with far c m show ?thesis by (simp add: limitTurnRate_cases angleTo_self)
  next
    case False
    from turnAxis_unit [OF c, of desired]
    have k: "lengthSq (turnAxis current desired) = 1" "dot (turnAxis current desired) current = 0"
      by simp_all
    from far angleTo_bounds [of current desired] have "maxRate \<le> pi" by simp
    with m have "angleTo current (applyAxisAngle current (turnAxis current desired) maxRate) = maxRate"
      by (intro angleTo_rotated c k)
    moreover have "lengthSq (applyAxisAngle current (turnAxis current desired) maxRate) = 1"
      using c k(1) by (simp add: lengthSq_applyAxisAngle)
    ultimately show ?thesis
      using far False by (simp add: limitTurnRate_cases)
  qed
qed

lemma limitTurnRate_unit:
  assumes "lengthSq current = 1" "lengthSq desired = 1"
  shows "lengthSq (limitTurnRate current desired maxRate) = 1"
  using assms turnAxis_unit [OF assms(1), of desired]
  by (simp add: limitTurnRate_cases lengthSq_applyAxisAngle)





section \<open>The turn rate of the generator\<close>

lemma lastDir_nextCurve:
  "lastDir (snd (nextCurve options noise2D rnd h tgt)) =
     limitTurnRate (lastDir h) (callDesired options noise2D rnd h tgt) (maxTurnRate options)"
  by (simp add: nextCurve_def callDesired_def Let_def split: prod.splits)

lemma lengthSq_desiredDirection:
  assumes "lengthSq (lastDir h) = 1"
  shows "lengthSq (desiredDirection options noise2D h nTime steer) = 1"
proof -
  have "lengthSq (normalizeV d) = 1" if "lengthSq d > 0.001" for d
    using that by (intro lengthSq_normalizeV) auto
  with assms show ?thesis
    by (simp add: desiredDirection_def Let_def)
qed

lemma lengthSq_callDesired:
  "lengthSq (lastDir h) = 1 \<Longrightarrow> lengthSq (callDesired options noise2D rnd h tgt) = 1"
  by (simp add: callDesired_def lengthSq_desiredDirection)

lemma headings_nth_0 [simp]: "headings options noise2D h calls ! 0 = h"
  by (cases calls) auto

lemma headings_nth_Suc:
  "headings options noise2D h ((rnd, tgt) # calls) ! Suc i =
     headings options noise2D (snd (nextCurve options noise2D rnd h tgt)) calls ! i"
  by simp

lemma length_headings [simp]: "length (headings options noise2D h calls) = Suc (length calls)"
  by (induction calls arbitrary: h) auto

lemma nextCurve_turn:
  assumes "0 \<le> maxTurnRate options" and "lengthSq (lastDir h) = 1"
  shows "angleTo (lastDir h) (lastDir (snd (nextCurve options noise2D rnd h tgt))) \<le> maxTurnRate options \<and>
         lengthSq (lastDir (snd (nextCurve options noise2D rnd h tgt))) = 1"
  unfolding lastDir_nextCurve
  using assms by (intro limitTurnRate_bound lengthSq_callDesired)







section \<open>Continuity of the normals across segment boundaries\<close>

lemma parallelTransport_parallel:
  "dot pt nt > 0.9999 \<Longrightarrow> parallelTransport pn pt nt = pn"
  by (simp add: parallelTransport_def)

lemma framesLoop_block:
  "framesLoop lib c S idx (ns, us, pn, pt) = (ns', us', pn', pt') \<Longrightarrow>
     \<exists>blk. ns' = ns @ blk \<and> length blk = length idx \<and>
           (idx = [] \<longrightarrow> pn' = pn) \<and>
           (idx \<noteq> [] \<longrightarrow> pn' = last blk \<and>
              hd blk = parallelTransport pn pt (getAnalyticalTangent lib c (real (hd idx) / real S)))"
proof (induction idx arbitrary: ns us pn pt)
  case Nil
  then show ?case by simp
next
  case (Cons i idx)
  let ?t = "getAnalyticalTangent lib c (real i / real S)"
  let ?n = "parallelTransport pn pt ?t"
  from Cons.prems have "framesLoop lib c S idx (ns @ [?n], us @ [0], ?n, ?t) = (ns', us', pn', pt')"
    by (simp add: Let_def)
  from Cons.IH [OF this] obtain blk where
    b: "ns' = (ns @ [?n]) @ blk" "length blk = length idx" "idx = [] \<longrightarrow> pn' = ?n"
      "idx \<noteq> [] \<longrightarrow> pn' = last blk"
    by blast
  show ?case
  proof (intro exI [of _ "?n # blk"] conjI impI)
    show "ns' = ns @ ?n # blk" using b(1) by simp
    show "length (?n # blk) = length (i # idx)" using b(2) by simp
    show "pn' = pn" if "i # idx = []" using that by simp
    show "pn' = last (?n # blk)" using b(2,3,4) by (cases idx) auto
    show "hd (?n # blk) = parallelTransport pn pt (getAnalyticalTangent lib c (real (hd (i # idx)) / real S))"
      by simp
  qed
qed

lemma addCurve_block:
  "\<exists>blk. normals (addCurve lib m c) = normals m @ blk \<and> length blk = samplesPerCurve m + 1 \<and>
         lastNormal (addCurve lib m c) = last blk \<and>
         hd blk = parallelTransport (fst (seedFrame lib m c)) (snd (seedFrame lib m c))
                    (getAnalyticalTangent lib c 0)"
proof -
  let ?S = "samplesPerCurve m"
  let ?seed = "seedFrame lib m c"
  obtain ns' us' pn' pt' where
    f: "framesLoop lib c ?S [0..<?S + 1] (normals m, uValues m, fst ?seed, snd ?seed) = (ns', us', pn', pt')"
    by (metis prod_cases4)
  have idx: "[0..<?S + 1] \<noteq> []" "hd [0..<?S + 1] = 0"
    by (simp_all add: upt_rec)
  from framesLoop_block [OF f] idx obtain blk where
    b: "ns' = normals m @ blk" "length blk = ?S + 1" "pn' = last blk"
      "hd blk = parallelTransport (fst ?seed) (snd ?seed) (getAnalyticalTangent lib c 0)"
    by auto
  have l: "curves m \<noteq> [] \<Longrightarrow> (curves m @ [c]) ! (length (curves m) - Suc 0) = last (curves m)"
    by (simp add: nth_append last_conv_nth)
  have "normals (addCurve lib m c) = ns' \<and> lastNormal (addCurve lib m c) = pn'"
    using f l by (auto simp: addCurve_def computeFramesForCurve_def Let_def seedFrame_def
        split: prod.splits if_splits)
  with b show ?thesis by auto
qed

lemma addCurve_continuous:
  assumes al: "cacheAligned m" and ln: "lastNormalCached m" and bc: "boundariesContinuous m"
    and join: "curves m \<noteq> [] \<Longrightarrow> tangentJoin lib (last (curves m)) c"
  shows "cacheAligned (addCurve lib m c) \<and> lastNormalCached (addCurve lib m c) \<and>
         boundariesContinuous (addCurve lib m c)"
proof -
  let ?S = "samplesPerCurve m"
  let ?n = "length (curves m)"
  let ?m' = "addCurve lib m c"
  from addCurve_block [of lib m c] obtain blk where
    b: "normals ?m' = normals m @ blk" "length blk = ?S + 1" "lastNormal ?m' = last blk"
      "hd blk = parallelTransport (fst (seedFrame lib m c)) (snd (seedFrame lib m c))
                    (getAnalyticalTangent lib c 0)"
    by blast
  from b(2) have ne: "blk \<noteq> []" by auto
  have len: "length (normals m) = ?n * (?S + 1)" using al by (simp add: cacheAligned_def)
  have 1: "cacheAligned ?m'" using al by (rule cacheAligned_addCurve)
  have 2: "lastNormalCached ?m'"
    using ne by (simp add: lastNormalCached_def b(1,3))
  have 3: "boundariesContinuous ?m'"
    unfolding boundariesContinuous_def
  proof (intro allI impI)
    fix i
    assume "i + 1 < length (curves ?m')"
    then have i: "i + 1 \<le> ?n" by simp
    show "normals ?m' ! (i * (samplesPerCurve ?m' + 1) + samplesPerCurve ?m') =
          normals ?m' ! ((i + 1) * (samplesPerCurve ?m' + 1))"
    proof (cases "i + 1 < ?n")
      case True
      then have "(i + 1) * (?S + 1) < ?n * (?S + 1)"
        by (intro mult_less_mono1) simp_all
      moreover have "i * (?S + 1) + ?S < (i + 1) * (?S + 1)" by simp
      ultimately have "i * (?S + 1) + ?S < length (normals m)" "(i + 1) * (?S + 1) < length (normals m)"
        using len by simp_all
      then show ?thesis
        using bc True by (simp add: b(1) nth_append boundariesContinuous_def)
    next
      case False
      with i have n: "?n = i + 1" by simp
      then have cne: "curves m \<noteq> []" by auto
      have last_idx: "i * (?S + 1) + ?S = length (normals m) - 1"
        using len n by simp
      have pos: "0 < length (normals m)" using len n by simp
      then have nne: "normals m \<noteq> []" by auto
      have "normals ?m' ! (i * (?S + 1) + ?S) = (normals m @ blk) ! (length (normals m) - 1)"
        by (simp only: b(1) last_idx)
      also have "\<dots> = last (normals m)"
        using pos nne by (simp add: nth_append last_conv_nth)
      finally have "normals ?m' ! (i * (?S + 1) + ?S) = last (normals m)" .
      also have "\<dots> = lastNormal m"
        using ln cne by (simp add: lastNormalCached_def)
      also have "\<dots> = hd blk"
        using join [OF cne] cne
        by (simp add: b(4) seedFrame_def tangentJoin_def parallelTransport_parallel)
      also have "\<dots> = normals ?m' ! ((i + 1) * (?S + 1))"
        using ne len n by (simp add: b(1) nth_append hd_conv_nth)
      finally show ?thesis by simp
    qed
  qed
  from 1 2 3 show ?thesis by simp
qed

lemma removeCurvesBefore_continuous:
  assumes al: "cacheAligned m" and ln: "lastNormalCached m" and bc: "boundariesContinuous m"
  shows "cacheAligned (removeCurvesBefore lib m pos) \<and> lastNormalCached (removeCurvesBefore lib m pos) \<and>
         boundariesContinuous (removeCurvesBefore lib m pos)"
proof -
  let ?S = "samplesPerCurve m"
  let ?k = "evictCount lib m pos"
  let ?m' = "removeCurvesBefore lib m pos"
  have len: "length (normals m) = length (curves m) * (?S + 1)"
    using al by (simp add: cacheAligned_def)
  have 1: "cacheAligned ?m'" using al by (rule cacheAligned_removeCurvesBefore)
  have 2: "lastNormalCached ?m'"
    unfolding lastNormalCached_def
  proof
    assume "curves ?m' \<noteq> []"
    then have k: "?k < length (curves m)" by simp
    then have "?k * (?S + 1) < length (curves m) * (?S + 1)"
      by (intro mult_less_mono1) simp_all
    then have "?k * (?S + 1) < length (normals m)" by (simp only: len)
    moreover from k have "curves m \<noteq> []" by auto
    ultimately show "lastNormal ?m' = last (normals ?m')"
      using ln by (simp add: lastNormalCached_def)
  qed
  have 3: "boundariesContinuous ?m'"
    unfolding boundariesContinuous_def
  proof (intro allI impI)
    fix i
    assume "i + 1 < length (curves ?m')"
    then have i: "(?k + i) + 1 < length (curves m)" by simp
    with bc have e: "normals m ! ((?k + i) * (?S + 1) + ?S) = normals m ! ((?k + i + 1) * (?S + 1))"
      unfolding boundariesContinuous_def by blast
    have "?k * (?S + 1) \<le> length (curves m) * (?S + 1)"
      using evictCount_le [of lib m pos] by (intro mult_le_mono1)
    then have kl: "?k * (?S + 1) \<le> length (normals m)" by (simp only: len)
    have d: "normals ?m' ! j = normals m ! (?k * (?S + 1) + j)" for j
      using kl by (simp only: removeCurvesBefore_fields nth_drop)
    have i1: "?k * (?S + 1) + (i * (?S + 1) + ?S) = (?k + i) * (?S + 1) + ?S"
      by (simp add: algebra_simps)
    have i2: "?k * (?S + 1) + (i + 1) * (?S + 1) = (?k + i + 1) * (?S + 1)"
      by (simp add: algebra_simps)
    have s: "samplesPerCurve ?m' = ?S" by simp
    show "normals ?m' ! (i * (samplesPerCurve ?m' + 1) + samplesPerCurve ?m') =
          normals ?m' ! ((i + 1) * (samplesPerCurve ?m' + 1))"
      unfolding s d i1 i2 by (rule e)
  qed
  from 1 2 3 show ?thesis by simp
qed

lemma foldl_addCurve_continuous:
  assumes "\<forall>i. i + 1 < length cs \<longrightarrow> tangentJoin lib (cs ! i) (cs ! (i + 1))"
  shows "curves (foldl (addCurve lib) (newEndlessCurve fn g) cs) = cs \<and>
         samplesPerCurve (foldl (addCurve lib) (newEndlessCurve fn g) cs) = 10 \<and>
         cacheAligned (foldl (addCurve lib) (newEndlessCurve fn g) cs) \<and>
         lastNormalCached (foldl (addCurve lib) (newEndlessCurve fn g) cs) \<and>
         boundariesContinuous (foldl (addCurve lib) (newEndlessCurve fn g) cs)"
  using assms
proof (induction cs rule: rev_induct)
  case Nil
  show ?case
    by (simp add: newEndlessCurve_def cacheAligned_def lastNormalCached_def boundariesContinuous_def)
next
  case (snoc c cs)
  let ?m = "foldl (addCurve lib) (newEndlessCurve fn g) cs"
  have "\<forall>i. i + 1 < length cs \<longrightarrow> tangentJoin lib (cs ! i) (cs ! (i + 1))"
  proof (intro allI impI)
    fix i assume i: "i + 1 < length cs"
    with snoc.prems have "tangentJoin lib ((cs @ [c]) ! i) ((cs @ [c]) ! (i + 1))" by simp
    with i show "tangentJoin lib (cs ! i) (cs ! (i + 1))" by (simp add: nth_append)
  qed
  from snoc.IH [OF this] have ih: "curves ?m = cs" "samplesPerCurve ?m = 10" "cacheAligned ?m"
    "lastNormalCached ?m" "boundariesContinuous ?m" by simp_all
  have join: "tangentJoin lib (last (curves ?m)) c" if "curves ?m \<noteq> []"
  proof -
    from that ih(1) have ne: "cs \<noteq> []" by simp
    then have "length cs - 1 + 1 < length (cs @ [c])" by simp
    with snoc.prems have "tangentJoin lib ((cs @ [c]) ! (length cs - 1)) ((cs @ [c]) ! (length cs - 1 + 1))"
      by blast
    with ne show ?thesis by (simp add: nth_append ih(1) last_conv_nth)
  qed
  from addCurve_continuous [OF ih(3,4,5) join] ih(1,2) show ?case by simp
qed

lemma normalizeV_scaled:
  assumes "lengthSq d = 1" "0 < s"
  shows "normalizeV (multiplyScalar d s) = d"
proof -
  have "vlength (multiplyScalar d s) = s"
    using assms by (simp add: vlength_def)
  with assms(2) show ?thesis
    by (cases d) (simp add: normalizeV_def multiplyScalar_def Let_def)
qed

lemma nextCurve_handles:
  assumes "0 < segmentLen options rnd"
  shows "\<exists>cd > 0.
           vsub (v1 (fst (nextCurve options noise2D rnd h tgt)))
                (v0 (fst (nextCurve options noise2D rnd h tgt))) =
             multiplyScalar (lastDir h) cd \<and>
           vsub (v3 (fst (nextCurve options noise2D rnd h tgt)))
                (v2 (fst (nextCurve options noise2D rnd h tgt))) =
             multiplyScalar (lastDir (snd (nextCurve options noise2D rnd h tgt))) cd"
proof -
  let ?new = "lastDir (snd (nextCurve options noise2D rnd h tgt))"
  let ?cd = "segmentLen options rnd * (0.33 + 0.34 * min 1 (angleTo (lastDir h) ?new / (pi / 2)))"
  have "0 \<le> angleTo (lastDir h) ?new" using angleTo_bounds by blast
  then have "0 \<le> min 1 (angleTo (lastDir h) ?new / (pi / 2))" by simp
  then have "0 \<le> 0.34 * min 1 (angleTo (lastDir h) ?new / (pi / 2))"
    by (intro mult_nonneg_nonneg) simp_all
  then have "0 < 0.33 + 0.34 * min 1 (angleTo (lastDir h) ?new / (pi / 2))"
    by (intro add_pos_nonneg) simp_all
  with assms have cd: "0 < ?cd" by (rule mult_pos_pos)
  have "vsub (v1 (fst (nextCurve options noise2D rnd h tgt)))
             (v0 (fst (nextCurve options noise2D rnd h tgt))) = multiplyScalar (lastDir h) ?cd"
    by (simp add: nextCurve_def Let_def vsub_def vadd_def multiplyScalar_def split: prod.splits)
  moreover have "vsub (v3 (fst (nextCurve options noise2D rnd h tgt)))
             (v2 (fst (nextCurve options noise2D rnd h tgt))) = multiplyScalar ?new ?cd"
    by (simp add: nextCurve_def Let_def vsub_def vadd_def multiplyScalar_def split: prod.splits)
  ultimately show ?thesis using cd by blast
qed

lemma generator_join:
  assumes rate: "0 \<le> maxTurnRate options" and unit: "lengthSq (lastDir h) = 1"
    and l1: "0 < segmentLen options rnd1" and l2: "0 < segmentLen options rnd2"
  shows "tangentJoin lib (fst (nextCurve options noise2D rnd1 h tgt1))
           (fst (nextCurve options noise2D rnd2 (snd (nextCurve options noise2D rnd1 h tgt1)) tgt2))"
proof -
  let ?c1 = "fst (nextCurve options noise2D rnd1 h tgt1)"
  let ?h1 = "snd (nextCurve options noise2D rnd1 h tgt1)"
  let ?c2 = "fst (nextCurve options noise2D rnd2 ?h1 tgt2)"
  from nextCurve_turn [OF rate unit, of noise2D rnd1 tgt1]
  have u1: "lengthSq (lastDir ?h1) = 1" by simp
  from nextCurve_handles [OF l1, of noise2D h tgt1] obtain cd1 where
    "0 < cd1" "vsub (v3 ?c1) (v2 ?c1) = multiplyScalar (lastDir ?h1) cd1" by blast
  then have t1: "getAnalyticalTangent lib ?c1 1 = lastDir ?h1"
    using u1 by (simp add: getAnalyticalTangent_def normalizeV_scaled)
  from nextCurve_handles [OF l2, of noise2D ?h1 tgt2] obtain cd2 where
    "0 < cd2" "vsub (v1 ?c2) (v0 ?c2) = multiplyScalar (lastDir ?h1) cd2" by blast
  then have t2: "getAnalyticalTangent lib ?c2 0 = lastDir ?h1"
    using u1 by (simp add: getAnalyticalTangent_def normalizeV_scaled)
  show ?thesis
    unfolding tangentJoin_def t1 t2 using u1 by (simp add: dot_self)
qed

text \<open>
  Claim C2, for segments that join with matching tangents. Append any sequence of
  segments to a new manager, each segment starting with the tangent its predecessor ends
  with (\<open>tangentJoin\<close>, on the exact tangents at \<open>t = 1\<close> and \<open>t = 0\<close>). Then the cached normal
  at the last sample of segment \<open>i\<close> (index \<open>11 i + 10\<close>) is the cached normal at the first
  sample of segment \<open>i + 1\<close> (index \<open>11 (i + 1)\<close>): the transport across the boundary returns
  the previous normal unchanged, so the two are equal, not only close. Eviction keeps the
  property (\<open>removeCurvesBefore_continuous\<close>), and consecutive segments of the steering
  generator join in this way when their lengths are positive (\<open>generator_join\<close>).
\<close>

theorem normals_continuous:
  assumes "\<forall>i. i + 1 < length cs \<longrightarrow> tangentJoin lib (cs ! i) (cs ! (i + 1))"
    and "i + 1 < length cs"
  shows "normals (foldl (addCurve lib) (newEndlessCurve fn g) cs) ! (i * 11 + 10) =
         normals (foldl (addCurve lib) (newEndlessCurve fn g) cs) ! ((i + 1) * 11)"
proof -
  let ?m = "foldl (addCurve lib) (newEndlessCurve fn g) cs"
  from foldl_addCurve_continuous [OF assms(1), of fn g]
  have c: "curves ?m = cs" and s: "samplesPerCurve ?m = 10" and bc: "boundariesContinuous ?m"
    by simp_all
  from assms(2) c have "i + 1 < length (curves ?m)" by simp
  with bc have "normals ?m ! (i * (samplesPerCurve ?m + 1) + samplesPerCurve ?m) =
                normals ?m ! ((i + 1) * (samplesPerCurve ?m + 1))"
    unfolding boundariesContinuous_def by blast
  then show ?thesis
    unfolding s by simp
qed

lemma unitStraight_tangent:
  "getAnalyticalTangent uniformLib (unitStraight a) t = Vec3 1 0 0"
  by (simp add: getAnalyticalTangent_def unitStraight_def uniformLib_def normalizeV_def vsub_def
      vlength_def lengthSq_def multiplyScalar_def Let_def)

theorem normals_continuous_witness:
  "tangentJoin uniformLib (unitStraight 0) (unitStraight 3) \<and>
   normals (foldl (addCurve uniformLib) (newEndlessCurve (stepGen 3) 0)
              [unitStraight 0, unitStraight 3]) ! 10 =
   normals (foldl (addCurve uniformLib) (newEndlessCurve (stepGen 3) 0)
              [unitStraight 0, unitStraight 3]) ! 11"
proof -
  have j: "tangentJoin uniformLib (unitStraight 0) (unitStraight 3)"
    by (simp add: tangentJoin_def unitStraight_tangent dot_def)
  then have h: "\<forall>i. i + 1 < length [unitStraight 0, unitStraight 3] \<longrightarrow>
      tangentJoin uniformLib ([unitStraight 0, unitStraight 3] ! i)
        ([unitStraight 0, unitStraight 3] ! (i + 1))"
    by simp
  have i: "0 + 1 < length [unitStraight 0, unitStraight 3]" by simp
  from normals_continuous [OF h i, of "stepGen 3" 0] j show ?thesis by simp
qed

lemma framesLoop_constant:
  assumes "\<forall>i \<in> set idx. getAnalyticalTangent lib c (real i / real S) = pt"
    and "dot pt pt > 0.9999"
  shows "framesLoop lib c S idx (ns, us, pn, pt) =
           (ns @ replicate (length idx) pn, us @ replicate (length idx) 0, pn, pt)"
  using assms(1)
proof (induction idx arbitrary: ns us)
  case Nil
  then show ?case by simp
next
  case (Cons i idx)
  then have t: "getAnalyticalTangent lib c (real i / real S) = pt" by simp
  have p: "parallelTransport pn pt pt = pn"
    using assms(2) by (rule parallelTransport_parallel)
  from Cons show ?case
    by (simp add: t p Let_def replicate_app_Cons_same)
qed

lemma alongZ_tangent0: "getAnalyticalTangent uniformLib alongZ 0 = Vec3 0 0 1"
  by (simp add: getAnalyticalTangent_def alongZ_def normalizeV_def vsub_def
      vlength_def lengthSq_def multiplyScalar_def Let_def)

lemma first_segment_frames:
  "normals (addCurve uniformLib (newEndlessCurve fn g) (unitStraight 0)) = replicate 11 (Vec3 0 0 1) \<and>
   lastNormal (addCurve uniformLib (newEndlessCurve fn g) (unitStraight 0)) = Vec3 0 0 1 \<and>
   curves (addCurve uniformLib (newEndlessCurve fn g) (unitStraight 0)) = [unitStraight 0] \<and>
   samplesPerCurve (addCurve uniformLib (newEndlessCurve fn g) (unitStraight 0)) = 10"
proof -
  have perp: "getArbitraryPerpendicular (Vec3 1 0 0) = Vec3 0 0 1"
    by (simp add: getArbitraryPerpendicular_def dot_def crossVectors_def normalizeV_def
        vlength_def lengthSq_def multiplyScalar_def Let_def)
  have loop: "framesLoop uniformLib (unitStraight 0) 10 [0..<10 + 1] ([], [], Vec3 0 0 1, Vec3 1 0 0) =
        ([] @ replicate (length [0..<10 + 1]) (Vec3 0 0 1), [] @ replicate (length [0..<10 + 1]) 0,
         Vec3 0 0 1, Vec3 1 0 0)"
    by (rule framesLoop_constant) (simp_all add: unitStraight_tangent dot_def)
  show ?thesis
    using loop
    by (simp add: addCurve_def computeFramesForCurve_def newEndlessCurve_def Let_def
        unitStraight_tangent perp)
qed

lemma corner_transport:
  "parallelTransport (Vec3 0 0 1) (Vec3 1 0 0) (Vec3 0 0 1) = Vec3 (- 1) 0 0"
proof -
  have r: "applyAxisAngle (Vec3 0 0 1) (Vec3 0 (- 1) 0) (pi / 2) = Vec3 (- 1) 0 0"
    by (simp add: applyAxisAngle_def applyQuaternion_def multiplyScalar_def Let_def
        sin_45 cos_45)
  show ?thesis
    by (simp add: parallelTransport_def dot_def crossVectors_def lengthSq_def normalizeV_def
        vlength_def multiplyScalar_def vsub_def Let_def r)
qed

text \<open>
  Without the matching tangents the claim fails. The manager takes any segment: append a
  segment along the x axis and then one that starts along the z axis. The transport across
  the corner turns the normal by a quarter turn: the last normal of the first segment is
  \<open>(0, 0, 1)\<close>, the first normal of the second is \<open>(-1, 0, 0)\<close>.
\<close>

theorem normals_continuous_counterexample:
  "normals (foldl (addCurve uniformLib) (newEndlessCurve (stepGen 3) 0) [unitStraight 0, alongZ]) ! 10 =
     Vec3 0 0 1 \<and>
   normals (foldl (addCurve uniformLib) (newEndlessCurve (stepGen 3) 0) [unitStraight 0, alongZ]) ! 11 =
     Vec3 (- 1) 0 0"
proof -
  let ?m1 = "addCurve uniformLib (newEndlessCurve (stepGen 3) 0) (unitStraight 0)"
  from first_segment_frames [of "stepGen 3" 0]
  have m1: "normals ?m1 = replicate 11 (Vec3 0 0 1)" "lastNormal ?m1 = Vec3 0 0 1"
    "curves ?m1 = [unitStraight 0]" "samplesPerCurve ?m1 = 10"
    by simp_all
  from addCurve_block [of uniformLib ?m1 alongZ] obtain blk where
    b: "normals (addCurve uniformLib ?m1 alongZ) = normals ?m1 @ blk"
      "length blk = samplesPerCurve ?m1 + 1"
      "hd blk = parallelTransport (fst (seedFrame uniformLib ?m1 alongZ))
                  (snd (seedFrame uniformLib ?m1 alongZ)) (getAnalyticalTangent uniformLib alongZ 0)"
    by blast
  have "seedFrame uniformLib ?m1 alongZ = (Vec3 0 0 1, Vec3 1 0 0)"
    by (simp add: seedFrame_def m1 unitStraight_tangent)
  with b(3) have h: "hd blk = Vec3 (- 1) 0 0"
    by (simp add: alongZ_tangent0 corner_transport)
  from b(2) have ne: "blk \<noteq> []" by auto
  have n: "normals (addCurve uniformLib ?m1 alongZ) = replicate 11 (Vec3 0 0 1) @ blk"
    using b(1) m1(1) by simp
  have "(replicate 11 (Vec3 0 0 1) @ blk) ! 10 = Vec3 0 0 1"
    by (simp add: nth_append)
  moreover have "(replicate 11 (Vec3 0 0 1) @ blk) ! 11 = Vec3 (- 1) 0 0"
    using ne h by (simp add: nth_append hd_conv_nth)
  ultimately show ?thesis
    by (simp add: n)
qed

section \<open>Termination of filling\<close>

lemma genStateAfter_Cons:
  "genStateAfter fn g (t # ts) = genStateAfter fn (snd (fn g t)) ts"
  by (simp add: genStateAfter_def)

text \<open>
  With a positive lower bound \<open>d\<close> on the arclength of every segment the generator can
  return from its present state on, at most \<open>k\<close> segments fill a deficit below \<open>k * d\<close>.
\<close>

lemma fill_deficit:
  assumes d: "0 < d"
  shows "\<forall>ts t. d \<le> curveGetLength lib
                      (fst (nextCurveFn m (genStateAfter (nextCurveFn m) (genState m) ts) t)) \<Longrightarrow>
         localDistance m len - getLengthSafe lib m < real k * d \<Longrightarrow>
         \<exists>m'. fillLength lib m len = Some m'"
proof (induction k arbitrary: m)
  case 0
  then have "localDistance m len < getLengthSafe lib m" by simp
  then show ?case by (simp add: fillLength_done)
next
  case (Suc k)
  show ?case
  proof (cases "localDistance m len < getLengthSafe lib m")
    case True
    then show ?thesis by (simp add: fillLength_done)
  next
    case False
    let ?c = "fst (nextCurveFn m (genState m) (target m))"
    let ?g = "snd (nextCurveFn m (genState m) (target m))"
    let ?m1 = "addCurve lib (m\<lparr>genState := ?g\<rparr>) ?c"
    have "getLengthSafe lib ?m1 = getLengthSafe lib m + curveGetLength lib ?c"
      by (simp add: getLengthSafe_sum)
    moreover have "d \<le> curveGetLength lib ?c"
      using Suc.prems(1) [rule_format, of "[]" "target m"] by (simp add: genStateAfter_def)
    ultimately have "localDistance ?m1 len - getLengthSafe lib ?m1 < real k * d"
      using Suc.prems(2) by (simp add: localDistance_def algebra_simps)
    moreover have "\<forall>ts t. d \<le> curveGetLength lib
        (fst (nextCurveFn ?m1 (genStateAfter (nextCurveFn ?m1) (genState ?m1) ts) t))"
    proof (intro allI)
      fix ts t
      from Suc.prems(1) [rule_format, of "target m # ts" t]
      show "d \<le> curveGetLength lib
          (fst (nextCurveFn ?m1 (genStateAfter (nextCurveFn ?m1) (genState ?m1) ts) t))"
        by (simp add: genStateAfter_Cons)
    qed
    ultimately have "\<exists>m'. fillLength lib ?m1 len = Some m'"
      by (rule Suc.IH [rotated])
    then show ?thesis
      by (simp add: fillLength_step [OF False])
  qed
qed

lemma fill_returns:
  assumes "0 < d"
    and "\<forall>ts t. d \<le> curveGetLength lib
                     (fst (nextCurveFn m (genStateAfter (nextCurveFn m) (genState m) ts) t))"
  shows "\<exists>m'. fillLength lib m len = Some m' \<and> localDistance m' len < getLengthSafe lib m'"
proof -
  obtain k :: nat where "localDistance m len - getLengthSafe lib m < real k * d"
    using assms(1) ex_less_of_nat_mult by blast
  from fill_deficit [OF assms this] obtain m' where "fillLength lib m len = Some m'" ..
  with fillLength_post [OF this] show ?thesis by simp
qed



text \<open>
  The steering generator meets the hypothesis when \<open>0 < segmentLength.min \<le>
  segmentLength.max\<close> and \<open>Math.random\<close> returns no negative number. Its last direction has
  length 1 in every state it reaches (\<open>steering_state_unit\<close>), so the chord of a segment is
  the length drawn for it (\<open>nextCurve_chord\<close>), which is at least \<open>segmentLength.min\<close>
  (\<open>segmentLen_ge\<close>, \<open>steering_chords\<close>). With a library whose arclength is at least half
  the chord (the exact arclength is at least the chord) \<open>fillLength\<close> returns on that
  generator (\<open>steering_fill_returns\<close>).
\<close>

lemma createCurveGenerator_fst:
  "fst (createCurveGenerator options noise2D randoms g t) =
     fst (nextCurve options noise2D (randoms (snd g)) (fst g) t)"
  by (simp add: createCurveGenerator_def split: prod.splits)

lemma createCurveGenerator_snd:
  "snd (createCurveGenerator options noise2D randoms g t) =
     (snd (nextCurve options noise2D (randoms (snd g)) (fst g) t), snd g + 1)"
  by (simp add: createCurveGenerator_def split: prod.splits)

lemma steering_state_unit:
  "lengthSq (lastDir (fst g)) = 1 \<Longrightarrow>
   lengthSq (lastDir (fst (genStateAfter (createCurveGenerator options noise2D randoms) g ts))) = 1"
proof (induction ts arbitrary: g)
  case Nil
  then show ?case by (simp add: genStateAfter_def)
next
  case (Cons t ts)
  have "lengthSq (lastDir (fst (snd (createCurveGenerator options noise2D randoms g t)))) = 1"
    unfolding createCurveGenerator_snd fst_conv lastDir_nextCurve
    using Cons.prems by (intro limitTurnRate_unit lengthSq_callDesired)
  from Cons.IH [OF this] show ?case by (simp add: genStateAfter_Cons)
qed

lemma segmentLen_ge:
  assumes "0 \<le> rnd" "minLength (segmentLength options) \<le> maxLength (segmentLength options)"
  shows "minLength (segmentLength options) \<le> segmentLen options rnd"
proof -
  have "0 \<le> rnd * (maxLength (segmentLength options) - minLength (segmentLength options))"
    using assms by (intro mult_nonneg_nonneg) simp_all
  then show ?thesis by (simp add: segmentLen_def)
qed

lemma nextCurve_chord:
  assumes "lengthSq (lastDir h) = 1"
  shows "vlength (vsub (v3 (fst (nextCurve options noise2D rnd h tgt)))
                       (v0 (fst (nextCurve options noise2D rnd h tgt)))) = \<bar>segmentLen options rnd\<bar>"
proof -
  let ?new = "lastDir (snd (nextCurve options noise2D rnd h tgt))"
  have u: "lengthSq ?new = 1"
    unfolding lastDir_nextCurve using assms by (intro limitTurnRate_unit lengthSq_callDesired)
  have "vsub (v3 (fst (nextCurve options noise2D rnd h tgt)))
             (v0 (fst (nextCurve options noise2D rnd h tgt))) =
        multiplyScalar ?new (segmentLen options rnd)"
    by (simp add: nextCurve_def Let_def vsub_def vadd_def multiplyScalar_def split: prod.splits)
  then show ?thesis
    using u by (simp add: vlength_def)
qed

lemma steering_chords:
  assumes "minLength (segmentLength options) \<le> maxLength (segmentLength options)"
    and "\<forall>k. 0 \<le> randoms k"
    and "lengthSq (lastDir (fst g)) = 1"
  shows "minLength (segmentLength options) \<le>
         vlength (vsub
           (v3 (fst (createCurveGenerator options noise2D randoms
                       (genStateAfter (createCurveGenerator options noise2D randoms) g ts) t)))
           (v0 (fst (createCurveGenerator options noise2D randoms
                       (genStateAfter (createCurveGenerator options noise2D randoms) g ts) t))))"
proof -
  let ?s = "genStateAfter (createCurveGenerator options noise2D randoms) g ts"
  have u: "lengthSq (lastDir (fst ?s)) = 1"
    using assms(3) by (rule steering_state_unit)
  have "minLength (segmentLength options) \<le> segmentLen options (randoms (snd ?s))"
    using assms(1,2) by (intro segmentLen_ge) simp_all
  also have "\<dots> \<le> \<bar>segmentLen options (randoms (snd ?s))\<bar>" by simp
  finally show ?thesis
    unfolding createCurveGenerator_fst nextCurve_chord [OF u] .
qed

lemma steering_fill_returns:
  assumes min: "0 < minLength (segmentLength options)"
    and max: "minLength (segmentLength options) \<le> maxLength (segmentLength options)"
    and rnd: "\<forall>k. 0 \<le> randoms k"
    and lib: "\<forall>c. vlength (vsub (v3 c) (v0 c)) \<le> 2 * curveGetLength lib c"
    and fn: "nextCurveFn m = createCurveGenerator options noise2D randoms"
    and unit: "lengthSq (lastDir (fst (genState m))) = 1"
  shows "\<exists>m'. fillLength lib m len = Some m' \<and> localDistance m' len < getLengthSafe lib m'"
proof (rule fill_returns)
  show "0 < minLength (segmentLength options) / 2" using min by simp
  show "\<forall>ts t. minLength (segmentLength options) / 2 \<le> curveGetLength lib
          (fst (nextCurveFn m (genStateAfter (nextCurveFn m) (genState m) ts) t))"
  proof (intro allI)
    fix ts t
    let ?c = "fst (nextCurveFn m (genStateAfter (nextCurveFn m) (genState m) ts) t)"
    have "minLength (segmentLength options) \<le> vlength (vsub (v3 ?c) (v0 ?c))"
      unfolding fn using max rnd unit by (rule steering_chords)
    also have "\<dots> \<le> 2 * curveGetLength lib ?c" using lib by blast
    finally show "minLength (segmentLength options) / 2 \<le> curveGetLength lib ?c" by simp
  qed
qed


text \<open>
  The hypothesis on the library cannot be dropped in the model, whose lengths may be any
  real number. Every segment of \<open>zenoGen\<close> has positive arclength under \<open>axisLib\<close>, each
  call of \<open>fillLength\<close> makes the cached length larger, and still the cached length never
  reaches 1: in the model \<open>fillLength 1\<close> does not return. The lengths \<open>(1 / 2) ^ (n + 1)\<close>
  of these segments fall below every positive bound, which the numbers of the program
  cannot do.
\<close>

lemma zeno_positive: "0 < curveGetLength axisLib (fst (zenoGen n t))"
  by (simp add: zenoGen_def axisLib_def straight_def)

lemma zeno_never:
  assumes "fillLength lib m len = Some y"
  shows "\<not> (lib = axisLib \<and> len = 1 \<and> nextCurveFn m = zenoGen \<and> distanceOffset m = 0 \<and>
            getLengthSafe axisLib m = 1 - (1 / 2) ^ genState m)"
proof (rule fillLength.raw_induct
    [where P = "\<lambda>lib m len y. \<not> (lib = axisLib \<and> len = 1 \<and> nextCurveFn m = zenoGen \<and>
        distanceOffset m = 0 \<and> getLengthSafe axisLib m = 1 - (1 / 2) ^ genState m)", OF _ assms],
    goal_cases)
  case (1 fl lib m len y)
  show ?case
  proof
    assume inv: "lib = axisLib \<and> len = 1 \<and> nextCurveFn m = zenoGen \<and> distanceOffset m = 0 \<and>
        getLengthSafe axisLib m = 1 - (1 / 2) ^ genState m"
    let ?n = "genState m"
    let ?m1 = "addCurve axisLib (m\<lparr>genState := ?n + 1\<rparr>) (straight (1 - (1 / 2) ^ ?n) (1 - (1 / 2) ^ (?n + 1)))"
    from inv have n: "\<not> localDistance m len < getLengthSafe lib m"
      by (simp add: localDistance_def)
    with 1(2) inv have r: "fl axisLib ?m1 1 = Some y"
      by (simp add: Let_def zenoGen_def)
    have "getLengthSafe axisLib ?m1 =
            getLengthSafe axisLib m + \<bar>(1 - (1 / 2) ^ (?n + 1)) - (1 - (1 / 2) ^ ?n)\<bar>"
      by (simp add: getLengthSafe_sum axisLib_def straight_def)
    also have "\<dots> = 1 - (1 / 2) ^ (?n + 1)"
      using inv by simp
    finally have "getLengthSafe axisLib ?m1 = 1 - (1 / 2) ^ genState ?m1"
      by simp
    with inv have "axisLib = axisLib \<and> (1::real) = 1 \<and> nextCurveFn ?m1 = zenoGen \<and> distanceOffset ?m1 = 0 \<and>
        getLengthSafe axisLib ?m1 = 1 - (1 / 2) ^ genState ?m1"
      by simp
    with 1(1) [OF r] show False by blast
  qed
qed

lemma zeno_fill_never_returns:
  "fillLength axisLib (newEndlessCurve zenoGen 0) 1 = None"
proof (cases "fillLength axisLib (newEndlessCurve zenoGen 0) 1")
  case None
  then show ?thesis .
next
  case (Some y)
  from zeno_never [OF this] show ?thesis
    by (simp add: newEndlessCurve_def getLengthSafe_def)
qed

section \<open>Setting the target\<close>

text \<open>
  Claim C8. \<open>setTarget\<close> stores the new target and changes no other field: the segment
  list, both cache arrays, \<open>lastNormal\<close>, \<open>distanceOffset\<close>, \<open>uStart\<close>, \<open>uLength\<close> and the
  generator's state are as before. The stored target is read by \<open>fillLength\<close> only when
  it has to emit a segment: a fill that needs no segment returns the manager as
  \<open>setTarget\<close> left it, and otherwise the generator is called with the new target. When
  the fill returns, the segments that were there before \<open>setTarget\<close> are still the first
  segments of the list, unchanged.
\<close>

theorem setTarget_frame:
  "target (setTarget m t) = Some t \<and>
   curves (setTarget m t) = curves m \<and>
   normals (setTarget m t) = normals m \<and>
   uValues (setTarget m t) = uValues m \<and>
   lastNormal (setTarget m t) = lastNormal m \<and>
   samplesPerCurve (setTarget m t) = samplesPerCurve m \<and>
   distanceOffset (setTarget m t) = distanceOffset m \<and>
   uStart (setTarget m t) = uStart m \<and>
   uLength (setTarget m t) = uLength m \<and>
   nextCurveFn (setTarget m t) = nextCurveFn m \<and>
   genState (setTarget m t) = genState m \<and>
   fillLength lib (setTarget m t) len =
     (if localDistance m len < getLengthSafe lib m then Some (setTarget m t)
      else fillLength lib
             (addCurve lib ((setTarget m t)\<lparr>genState := snd (nextCurveFn m (genState m) (Some t))\<rparr>)
                (fst (nextCurveFn m (genState m) (Some t))))
             len) \<and>
   (case fillLength lib (setTarget m t) len of
      None \<Rightarrow> True
    | Some m' \<Rightarrow> take (length (curves m)) (curves m') = curves m)"
proof -
  have f: "fillLength lib (setTarget m t) len =
     (if localDistance m len < getLengthSafe lib m then Some (setTarget m t)
      else fillLength lib
             (addCurve lib ((setTarget m t)\<lparr>genState := snd (nextCurveFn m (genState m) (Some t))\<rparr>)
                (fst (nextCurveFn m (genState m) (Some t))))
             len)"
    by (subst fillLength.simps)
      (simp add: setTarget_def localDistance_def getLengthSafe_def getLength_def
        getCurveLengths_def Let_def split: prod.splits)
  have p: "take (length (curves m)) (curves m') = curves m"
    if "fillLength lib (setTarget m t) len = Some m'" for m'
  proof -
    from fillLength_keeps [OF that] obtain ext where "curves m' = curves (setTarget m t) @ ext"
      by blast
    then show ?thesis by (simp add: setTarget_def)
  qed
  have "case fillLength lib (setTarget m t) len of
      None \<Rightarrow> True
    | Some m' \<Rightarrow> take (length (curves m)) (curves m') = curves m"
    using p by (cases "fillLength lib (setTarget m t) len") simp_all
  with f show ?thesis
    by (simp add: setTarget_def)
qed

theorem setTarget_frame_witness:
  "map_option curves (fillLength axisLib (setTarget oneSegment (Vec3 0 0 5)) 8) =
     Some [straight 0 6, straight 6 12] \<and>
   take 1 [straight 0 6, straight 6 12] = curves oneSegment"
proof -
  let ?a = "setTarget oneSegment (Vec3 0 0 5)"
  let ?a1 = "addCurve axisLib (?a\<lparr>genState := 12\<rparr>) (straight 6 12)"
  have a: "curves ?a = [straight 0 6]" "distanceOffset ?a = 0"
    "nextCurveFn ?a (genState ?a) (target ?a) = (straight 6 12, 12)"
    by (simp_all add: setTarget_def oneSegment_fields oneSegment_def newEndlessCurve_def stepGen_def)
  have la: "getLengthSafe axisLib ?a = 6"
    by (simp add: setTarget_def getLengthSafe_sum oneSegment_fields axisLib_def straight_def)
  have n: "\<not> localDistance ?a 8 < getLengthSafe axisLib ?a"
    by (simp add: localDistance_def a(2) la)
  have c1: "curves ?a1 = [straight 0 6, straight 6 12]"
    by (simp add: setTarget_def oneSegment_fields)
  have "getLengthSafe axisLib ?a1 = sum_list (map (curveGetLength axisLib) [straight 0 6, straight 6 12])"
    unfolding getLengthSafe_sum c1 ..
  then have l1: "getLengthSafe axisLib ?a1 = 12"
    by (simp add: axisLib_def straight_def)
  have d1: "distanceOffset ?a1 = 0"
    by (simp add: setTarget_def oneSegment_fields)
  have "fillLength axisLib ?a 8 = fillLength axisLib ?a1 8"
    unfolding fillLength_step [OF n] a(3) by simp
  also have "\<dots> = Some ?a1"
  proof (rule fillLength_done)
    show "localDistance ?a1 8 < getLengthSafe axisLib ?a1"
      unfolding localDistance_def d1 l1 by simp
  qed
  finally have f: "fillLength axisLib ?a 8 = Some ?a1" .
  from setTarget_frame [of oneSegment "Vec3 0 0 5" axisLib 8] show ?thesis
    unfolding f option.map c1 by (simp add: oneSegment_fields)
qed

end
